(* ===== verification/Birch_Prelude.thy ===== *)
theory Birch_Prelude
  imports Main "HOL-Library.AList" "HOL-Library.Word"
begin

text \<open>
  Shared vocabulary of the birch development: the bytes of the C++ \<open>char\<close> type and
  their integer promotion, the insertion-ordered hash map that holds message tags, the
  status values the components return, and the generic list lemmas their proofs use.
  It also states the interface of the delimiter splitting routine
  (\<open>absl::StrSplit\<close>), which is not part of the repository.
\<close>

section \<open>Bytes\<close>

text \<open>
  A C++ \<open>char\<close> is one byte, HOL's \<^typ>\<open>char\<close>. Its promotion to \<open>int\<close> depends on
  whether the platform's \<open>char\<close> is signed: \<open>char_to_int\<close> takes that choice as its
  first argument.
\<close>

abbreviation NUL :: char where "NUL \<equiv> CHR 0x00"
abbreviation LF :: char where "LF \<equiv> CHR 0x0A"
abbreviation CR :: char where "CR \<equiv> CHR 0x0D"
abbreviation SP :: char where "SP \<equiv> CHR 0x20"

definition char_to_int :: "bool \<Rightarrow> char \<Rightarrow> int" where
  "char_to_int is_signed c =
     (if is_signed \<and> 128 \<le> (of_char c :: int) then of_char c - 256 else of_char c)"

definition in_range :: "nat \<Rightarrow> nat \<Rightarrow> char \<Rightarrow> bool" where
  "in_range lo hi c \<longleftrightarrow> lo \<le> of_char c \<and> of_char c \<le> hi"

section \<open>Status values\<close>

text \<open>
  The values of \<open>absl::Status\<close> that the repository's code builds, one constructor per
  factory function it calls; \<open>absl::StatusOr\<close> is a sum with the status on the left.
\<close>

datatype status =
    OkStatus
  | InvalidArgumentError string
  | NotFoundError string
  | AlreadyExistsError string
  | UnimplementedError string
  | InternalError string
  | ErrnoToStatus int string

type_synonym 'a status_or = "status + 'a"

section \<open>Insertion-ordered maps\<close>

text \<open>
  \<open>absl::linked_hash_map\<close>: a map iterated in insertion order, kept here as the list of
  its entries. Assignment through \<open>operator[]\<close> overwrites in place; \<open>emplace\<close> leaves
  an existing entry alone. New keys go to the end.
\<close>

type_synonym ('k, 'v) linked_hash_map = "('k \<times> 'v) list"

definition lhm_assign :: "'k \<Rightarrow> 'v \<Rightarrow> ('k, 'v) linked_hash_map \<Rightarrow> ('k, 'v) linked_hash_map" where
  "lhm_assign k v m = AList.update k v m"

definition lhm_emplace :: "'k \<Rightarrow> 'v \<Rightarrow> ('k, 'v) linked_hash_map \<Rightarrow> ('k, 'v) linked_hash_map" where
  "lhm_emplace k v m = (case map_of m k of None \<Rightarrow> m @ [(k, v)] | Some _ \<Rightarrow> m)"

section \<open>Joining\<close>

text \<open>The separator-joining loop that the source writes with a \<open>first\<close> flag.\<close>

fun join_with :: "'a list \<Rightarrow> 'a list list \<Rightarrow> 'a list" where
  "join_with sep [] = []"
| "join_with sep [x] = x"
| "join_with sep (x # y # zs) = x @ sep @ join_with sep (y # zs)"

text \<open>The pieces of a list between the occurrences of a delimiter; never the empty list.\<close>

fun split_on :: "'a \<Rightarrow> 'a list \<Rightarrow> 'a list list" where
  "split_on d [] = [[]]"
| "split_on d (c # cs) =
     (if c = d then [] # split_on d cs
      else (case split_on d cs of [] \<Rightarrow> [[c]] | p # ps \<Rightarrow> (c # p) # ps))"

text \<open>The same with at most \<open>n\<close> cuts; the last piece keeps whatever is left.\<close>

fun split_max :: "'a \<Rightarrow> nat \<Rightarrow> 'a list \<Rightarrow> 'a list list" where
  "split_max d 0 cs = [cs]"
| "split_max d (Suc n) [] = [[]]"
| "split_max d (Suc n) (c # cs) =
     (if c = d then [] # split_max d n cs
      else (case split_max d (Suc n) cs of [] \<Rightarrow> [[c]] | p # ps \<Rightarrow> (c # p) # ps))"

section \<open>Automation\<close>

named_theorems char_class \<open>definitions of the byte classes\<close>
named_theorems wf_simps \<open>definitions of the well-formedness predicates\<close>

lemmas byte_simps = char_to_int_def in_range_def

section \<open>Lemmas on bytes\<close>

lemma of_char_nat_bound: "(of_char c :: nat) < 256"
  by (rule nat_of_char_less_256)

lemma of_char_int_range: "0 \<le> (of_char c :: int)" "(of_char c :: int) < 256"
proof -
  have "(of_char c :: int) = int (of_char c)" by (simp add: of_nat_of_char)
  then show "0 \<le> (of_char c :: int)" "(of_char c :: int) < 256"
    using of_char_nat_bound [of c] by simp_all
qed

text \<open>A range test inside the ASCII half does not see the signedness of \<open>char\<close>.\<close>

lemma in_range_char_to_int:
  assumes "hi < 128"
  shows "in_range lo hi c \<longleftrightarrow> int lo \<le> char_to_int sg c \<and> char_to_int sg c \<le> int hi"
proof -
  define n where "n = (of_char c :: nat)"
  have "n < 256" unfolding n_def by (rule of_char_nat_bound)
  moreover have "(of_char c :: int) = int n" by (simp add: n_def of_nat_of_char)
  ultimately show ?thesis
    using assms by (auto simp: byte_simps n_def [symmetric])
qed

section \<open>Lemmas on insertion-ordered maps\<close>

lemma map_of_lhm_assign [simp]: "map_of (lhm_assign k v m) = (map_of m)(k \<mapsto> v)"
  by (simp add: lhm_assign_def update_conv')

lemma map_of_lhm_emplace:
  "map_of (lhm_emplace k v m) = (case map_of m k of None \<Rightarrow> (map_of m)(k \<mapsto> v) | Some _ \<Rightarrow> map_of m)"
  by (auto simp: lhm_emplace_def map_add_def fun_eq_iff split: option.splits)

lemma lhm_assign_fresh: "k \<notin> fst ` set m \<Longrightarrow> lhm_assign k v m = m @ [(k, v)]"
  by (induction m) (auto simp: lhm_assign_def)

lemma lhm_emplace_fresh: "k \<notin> fst ` set m \<Longrightarrow> lhm_emplace k v m = m @ [(k, v)]"
  by (simp add: lhm_emplace_def map_of_eq_None_iff [THEN iffD2])

lemma distinct_lhm_assign [simp]: "distinct (map fst m) \<Longrightarrow> distinct (map fst (lhm_assign k v m))"
  by (simp add: lhm_assign_def distinct_update)

lemma distinct_lhm_emplace [simp]:
  "distinct (map fst m) \<Longrightarrow> distinct (map fst (lhm_emplace k v m))"
  by (auto simp: lhm_emplace_def map_of_eq_None_iff split: option.splits)

lemma set_lhm_assign: "set (lhm_assign k v m) \<subseteq> insert (k, v) (set m)"
  by (induction m) (auto simp: lhm_assign_def)

lemma set_lhm_emplace: "set (lhm_emplace k v m) \<subseteq> insert (k, v) (set m)"
  by (auto simp: lhm_emplace_def split: option.splits)

section \<open>Lemmas on joining and splitting\<close>

lemma join_with_Cons:
  "join_with sep (x # xs) = x @ (if xs = [] then [] else sep @ join_with sep xs)"
  by (cases xs) simp_all

lemma join_with_concat: "join_with sep (x # xs) = x @ concat (map (\<lambda>y. sep @ y) xs)"
  by (induction xs arbitrary: x) auto

lemma split_on_nonempty [simp]: "split_on d cs \<noteq> []"
  by (induction cs) (auto split: list.splits)

lemma split_max_nonempty [simp]: "split_max d n cs \<noteq> []"
  by (induction d n cs rule: split_max.induct) (auto split: list.splits)

lemma join_split_on [simp]: "join_with [d] (split_on d cs) = cs"
  by (induction cs) (auto simp: join_with_Cons split: list.splits if_splits)

lemma split_on_no_delim: "d \<notin> set cs \<Longrightarrow> split_on d cs = [cs]"
  by (induction cs) auto

lemma split_on_append: "d \<notin> set p \<Longrightarrow> split_on d (p @ d # cs) = p # split_on d cs"
  by (induction p) auto

lemma split_on_pieces: "p \<in> set (split_on d cs) \<Longrightarrow> d \<notin> set p"
  by (induction cs arbitrary: p) (auto split: list.splits if_splits)

lemma split_join_with:
  "ps \<noteq> [] \<Longrightarrow> (\<And>p. p \<in> set ps \<Longrightarrow> d \<notin> set p) \<Longrightarrow> split_on d (join_with [d] ps) = ps"
  by (induction ps rule: induct_list012) (auto simp: split_on_no_delim split_on_append)

lemma split_max_no_delim: "d \<notin> set cs \<Longrightarrow> split_max d n cs = [cs]"
  by (induction d n cs rule: split_max.induct) auto

lemma split_max_append: "d \<notin> set p \<Longrightarrow> split_max d (Suc n) (p @ d # cs) = p # split_max d n cs"
  by (induction p) auto

lemma split_max_hd: "\<exists>ps. split_max d (Suc n) cs = takeWhile (\<lambda>c. c \<noteq> d) cs # ps"
  by (induction cs) auto

section \<open>The splitting interface\<close>

text \<open>
  \<open>absl::StrSplit\<close> belongs to a library outside the repository, so the components take it
  as an argument: \<open>split d n s\<close> is \<open>absl::StrSplit(s, absl::MaxSplits(d, n))\<close>. Its
  documented behaviour is the contract of the locale: no cut is made when none is allowed
  or the delimiter does not occur, and otherwise the text before the first delimiter is the
  first piece.
\<close>

locale str_split =
  fixes split :: "char \<Rightarrow> nat \<Rightarrow> string \<Rightarrow> string list"
  assumes split_limit: "split d 0 s = [s]"
    and split_absent: "d \<notin> set s \<Longrightarrow> split d n s = [s]"
    and split_first: "d \<notin> set p \<Longrightarrow> split d (Suc n) (p @ d # s) = p # split d n s"
begin

text \<open>The contract determines the routine.\<close>

lemma split_eq: "split d n s = split_max d n s"
proof (induction n arbitrary: s)
  case 0
  show ?case by (simp add: split_limit)
next
  case (Suc n)
  show ?case
  proof (cases "d \<in> set s")
    case False
    then show ?thesis by (simp add: split_absent split_max_no_delim)
  next
    case True
    then obtain p q where "s = p @ d # q" and "d \<notin> set p"
      by (blast dest: split_list_first)
    then show ?thesis by (simp add: split_first split_max_append Suc.IH)
  qed
qed

text \<open>Two cuts at \<open>d\<close> put the text up to the second \<open>d\<close> in second place.\<close>

lemma split_two:
  assumes "d \<notin> set p"
  shows "\<exists>ps. split d 2 (p @ d # s) = p # takeWhile (\<lambda>c. c \<noteq> d) s # ps"
  using split_max_hd [of d 0 s] assms
  by (auto simp: split_eq numeral_2_eq_2 split_max_append)

end

interpretation abseil: str_split split_max
  by unfold_locales (simp_all add: split_max_no_delim split_max_append)

end
