(* ===== verification/Irc_Message.thy ===== *)
theory Irc_Message
  imports Birch_Prelude
begin

text \<open>
  The unit of the IRC protocol, one line: \<open>irc/Message.h\<close> and \<open>irc/Message.cc\<close>, with
  the \<open>MessageBuilder\<close> and the diagnostic rendering \<open>operator<<\<close>.
\<close>

section \<open>Message\<close>

record Message =
  m_prefix :: string
  m_command :: string
  m_params :: "string list"
  m_tags :: "(string, string) linked_hash_map"

definition empty_message :: Message where
  "empty_message = \<lparr>m_prefix = [], m_command = [], m_params = [], m_tags = []\<rparr>"

text \<open>
  \<open>AddTag\<close> has two overloads and they differ: the one taking references assigns through
  \<open>operator[]\<close>, the one taking rvalues calls \<open>emplace\<close>.
\<close>

definition AddTag :: "string \<Rightarrow> string \<Rightarrow> Message \<Rightarrow> Message" where
  "AddTag key val msg = msg\<lparr>m_tags := lhm_assign key val (m_tags msg)\<rparr>"

definition AddTag_rvalue :: "string \<Rightarrow> string \<Rightarrow> Message \<Rightarrow> Message" where
  "AddTag_rvalue key val msg = msg\<lparr>m_tags := lhm_emplace key val (m_tags msg)\<rparr>"

definition SetPrefix :: "string \<Rightarrow> Message \<Rightarrow> Message" where
  "SetPrefix prefix msg = msg\<lparr>m_prefix := prefix\<rparr>"

definition SetCommand :: "string \<Rightarrow> Message \<Rightarrow> Message" where
  "SetCommand command msg = msg\<lparr>m_command := command\<rparr>"

definition AddParam :: "string \<Rightarrow> Message \<Rightarrow> Message" where
  "AddParam param msg = msg\<lparr>m_params := m_params msg @ [param]\<rparr>"

definition message_to_string :: "Message \<Rightarrow> string" where
  "message_to_string msg =
     ''Message('' @
     ''prefix='' @ m_prefix msg @ '', '' @
     ''command='' @ m_command msg @ '', '' @
     ''params=['' @ join_with '', '' (m_params msg) @ ''], '' @
     ''tags={'' @ join_with '', '' (map (\<lambda>(k, v). k @ ''='' @ v) (m_tags msg)) @ ''})''"

section \<open>MessageBuilder\<close>

record MessageBuilder =
  mb_message :: Message

definition Builder :: MessageBuilder where
  "Builder = \<lparr>mb_message = empty_message\<rparr>"

definition WithPrefix :: "string \<Rightarrow> MessageBuilder \<Rightarrow> MessageBuilder" where
  "WithPrefix prefix b = b\<lparr>mb_message := SetPrefix prefix (mb_message b)\<rparr>"

definition WithCommand :: "string \<Rightarrow> MessageBuilder \<Rightarrow> MessageBuilder" where
  "WithCommand command b = b\<lparr>mb_message := SetCommand command (mb_message b)\<rparr>"

definition WithParam :: "string \<Rightarrow> MessageBuilder \<Rightarrow> MessageBuilder" where
  "WithParam param b = b\<lparr>mb_message := AddParam param (mb_message b)\<rparr>"

definition WithTag :: "string \<Rightarrow> string \<Rightarrow> MessageBuilder \<Rightarrow> MessageBuilder" where
  "WithTag key val b = b\<lparr>mb_message := AddTag key val (mb_message b)\<rparr>"

definition WithTag_rvalue :: "string \<Rightarrow> string \<Rightarrow> MessageBuilder \<Rightarrow> MessageBuilder" where
  "WithTag_rvalue key val b = b\<lparr>mb_message := AddTag_rvalue key val (mb_message b)\<rparr>"

definition Build :: "MessageBuilder \<Rightarrow> Message" where
  "Build b = mb_message b"

lemmas message_ops = AddTag_def AddTag_rvalue_def SetPrefix_def SetCommand_def AddParam_def
  empty_message_def

lemmas builder_ops = Builder_def WithPrefix_def WithCommand_def WithParam_def WithTag_def
  WithTag_rvalue_def Build_def

section \<open>Tag semantics\<close>

text \<open>
  The invariant of every message the code builds: the tag map has one entry per key.
\<close>

definition tags_unique :: "Message \<Rightarrow> bool" where
  [wf_simps]: "tags_unique msg \<longleftrightarrow> distinct (map fst (m_tags msg))"

lemma tags_unique_ops [simp]:
  "tags_unique empty_message"
  "tags_unique msg \<Longrightarrow> tags_unique (AddTag k v msg)"
  "tags_unique msg \<Longrightarrow> tags_unique (AddTag_rvalue k v msg)"
  "tags_unique (SetPrefix p msg) = tags_unique msg"
  "tags_unique (SetCommand c msg) = tags_unique msg"
  "tags_unique (AddParam q msg) = tags_unique msg"
  by (simp_all add: tags_unique_def message_ops)

end
