(* ===== verification/Message_Parser.thy ===== *)
theory Message_Parser
  imports Irc_Message
begin

text \<open>
  The incremental line parser of \<open>server/MessageParser.h\<close> and
  \<open>server/MessageParser.cc\<close>: the byte classes, the prefix validator, the state machine
  \<open>Consume\<close> with one definition per parse state, and the driving loop \<open>Parse\<close>.

  What the parser uses from outside the repository is an argument, the record
  \<open>parser_env\<close>: whether \<open>char\<close> is signed on the platform, whether
  \<open>asio::ip::make_address\<close> accepts a text, \<open>absl::StrSplit\<close> with \<open>absl::MaxSplits\<close>,
  and the contents the standard library leaves in a moved-from string (which the
  language does not specify). The trace the macro \<open>NEXT\<close> prints is not modelled.
\<close>

section \<open>Byte classes\<close>

definition IsUserChar :: "char \<Rightarrow> bool" where
  [char_class]: "IsUserChar c \<longleftrightarrow> c \<noteq> NUL \<and> c \<noteq> CR \<and> c \<noteq> LF \<and> c \<noteq> SP \<and> c \<noteq> CHR ''@''"

definition IsKeyChar :: "char \<Rightarrow> bool" where
  [char_class]: "IsKeyChar c \<longleftrightarrow>
     in_range 0x21 0x7F c \<or> in_range 0x0E 0x1F c \<or> in_range 0x01 0x05 c
     \<or> c = CHR 0x00 \<or> c = CHR 0x08 \<or> c = CHR 0x0C"

definition IsLetter :: "char \<Rightarrow> bool" where
  [char_class]: "IsLetter c \<longleftrightarrow> in_range 97 122 c \<or> in_range 65 90 c"

definition IsDigit :: "char \<Rightarrow> bool" where
  [char_class]: "IsDigit c \<longleftrightarrow> in_range 48 57 c"

definition IsHex :: "char \<Rightarrow> bool" where
  [char_class]: "IsHex c \<longleftrightarrow> IsDigit c \<or> in_range 65 70 c"

definition IsSpecial :: "char \<Rightarrow> bool" where
  [char_class]: "IsSpecial c \<longleftrightarrow> in_range 0x5B 0x60 c \<or> in_range 0x7B 0x7D c"

definition IsWild :: "char \<Rightarrow> bool" where
  [char_class]: "IsWild c \<longleftrightarrow> c = CHR ''*'' \<or> c = CHR ''?''"

definition IsPrefixChar :: "char \<Rightarrow> bool" where
  [char_class]: "IsPrefixChar c \<longleftrightarrow>
     IsLetter c \<or> IsDigit c \<or> IsSpecial c \<or> c = CHR ''!'' \<or> c = CHR ''.''
     \<or> c = CHR ''@'' \<or> c = CHR ''-'' \<or> c = CHR '':''"

definition IsParamStartChar :: "bool \<Rightarrow> char \<Rightarrow> bool" where
  [char_class]: "IsParamStartChar is_signed c \<longleftrightarrow>
     (let i = char_to_int is_signed c in
        (0x3B \<le> i \<and> i \<le> 0xFF)
        \<or> (0x21 \<le> i \<and> i \<le> 0x39)
        \<or> (0x0E \<le> i \<and> i \<le> 0x1F)
        \<or> (0x0B \<le> i \<and> i \<le> 0x0C)
        \<or> (0x01 \<le> i \<and> i \<le> 0x09))"

definition IsTagKeyChar :: "char \<Rightarrow> bool" where
  [char_class]: "IsTagKeyChar c \<longleftrightarrow>
     IsLetter c \<or> IsDigit c \<or> c = CHR ''-'' \<or> c = CHR ''/'' \<or> c = CHR ''+''"

section \<open>Prefix validation\<close>

text \<open>
  A pointer range \<open>[begin, end)\<close> into the buffer is the list of its bytes; a pointer
  into it is the rest of the list, so \<open>p == end\<close> reads \<open>p = []\<close>.
\<close>

fun IsValidHostname_loop :: "bool \<Rightarrow> string \<Rightarrow> bool" where
  "IsValidHostname_loop shortnameStart [] = (\<not> shortnameStart)"
| "IsValidHostname_loop shortnameStart (c # cur) =
     (if c = CHR ''!'' \<or> c = CHR ''@'' then False
      else if IsLetter c \<or> IsDigit c \<or> (\<not> shortnameStart \<and> c = CHR ''-'')
        then IsValidHostname_loop False cur
      else if c = CHR ''.'' \<and> \<not> shortnameStart then IsValidHostname_loop True cur
      else False)"

definition IsValidHostname :: "string \<Rightarrow> bool" where
  "IsValidHostname s = (if s = [] then False else IsValidHostname_loop True s)"

record parser_env =
  char_signed :: bool
  make_address :: "string \<Rightarrow> bool"
  str_split_max :: "char \<Rightarrow> nat \<Rightarrow> string \<Rightarrow> string list"
  moved_from :: "string \<Rightarrow> string"

definition IsInternetAddress :: "parser_env \<Rightarrow> string \<Rightarrow> bool" where
  "IsInternetAddress env c = make_address env (takeWhile (\<lambda>b. b \<noteq> NUL) c)"

datatype prefix_state = vsNickname | vsUser | vsHost

record prefix_scan =
  vs_state :: prefix_state
  nickLen :: nat
  userLen :: nat
  hostLen :: nat
  userStart :: string
  hostStart :: string

text \<open>One turn of the loop on the byte \<open>c\<close>, with \<open>cur\<close> the bytes after it; \<open>None\<close> is
  the early \<open>return false\<close>.\<close>

definition prefix_scan_step :: "char \<Rightarrow> string \<Rightarrow> prefix_scan \<Rightarrow> prefix_scan option" where
  "prefix_scan_step c cur v =
     (case vs_state v of
        vsNickname \<Rightarrow>
          if IsLetter c \<or> IsSpecial c then Some (v\<lparr>nickLen := nickLen v + 1\<rparr>)
          else if IsDigit c \<or> c = CHR ''-'' then
            (if nickLen v = 0 then None else Some (v\<lparr>nickLen := nickLen v + 1\<rparr>))
          else if c = CHR ''!'' then Some (v\<lparr>userStart := cur, vs_state := vsUser\<rparr>)
          else if c = CHR ''@'' then Some (v\<lparr>hostStart := cur, vs_state := vsHost\<rparr>)
          else None
      | vsUser \<Rightarrow>
          if IsUserChar c then Some (v\<lparr>userLen := userLen v + 1\<rparr>)
          else if c = CHR ''@'' then Some (v\<lparr>hostStart := cur, vs_state := vsHost\<rparr>)
          else None
      | vsHost \<Rightarrow>
          if IsLetter c \<or> IsHex c \<or> c = CHR ''.'' \<or> c = CHR '':'' \<or> c = CHR ''-''
          then Some (v\<lparr>hostLen := hostLen v + 1\<rparr>)
          else None)"

fun prefix_scan_loop :: "string \<Rightarrow> prefix_scan \<Rightarrow> prefix_scan option" where
  "prefix_scan_loop [] v = Some v"
| "prefix_scan_loop (c # cur) v =
     (case prefix_scan_step c cur v of None \<Rightarrow> None | Some v' \<Rightarrow> prefix_scan_loop cur v')"

definition prefix_scan_init :: prefix_scan where
  "prefix_scan_init = \<lparr>vs_state = vsNickname, nickLen = 0, userLen = 0, hostLen = 0,
     userStart = [], hostStart = []\<rparr>"

text \<open>The checks after the loop, on the lengths and start pointers it collected.\<close>

definition prefix_scan_verdict :: "parser_env \<Rightarrow> prefix_scan \<Rightarrow> bool" where
  "prefix_scan_verdict env v =
     (if nickLen v < 1 \<or> nickLen v > 9 then False
      else if hostStart v = [] then userStart v = []
      else if userStart v \<noteq> [] \<and> userLen v = 0 then False
      else IsValidHostname (hostStart v) \<or> IsInternetAddress env (hostStart v))"

definition IsValidPrefix :: "parser_env \<Rightarrow> string \<Rightarrow> bool" where
  "IsValidPrefix env buf =
     (if IsValidHostname buf then True
      else (case prefix_scan_loop buf prefix_scan_init of
              None \<Rightarrow> False
            | Some v \<Rightarrow> prefix_scan_verdict env v))"

section \<open>The state machine\<close>

datatype ParseState = Incomplete | Complete | Invalid

datatype parse_state =
    parseStateStart
  | parseStateTagKey
  | parseStateTagValue
  | parseStateAfterTags
  | parseStatePrefix
  | parseStateCommandNameOrNumber
  | parseStateCommandName
  | parseStateCommandNumber
  | parseStateParamStart
  | parseStateParam
  | parseStateTrailing
  | parseStateCr
  | parseStateComplete

record MessageParser =
  m_state :: parse_state
  m_buffer :: string

definition MessageParser_init :: MessageParser where
  "MessageParser_init = \<lparr>m_state = parseStateStart, m_buffer = []\<rparr>"

definition Reset :: "MessageParser \<Rightarrow> MessageParser" where
  "Reset p = p\<lparr>m_state := parseStateStart, m_buffer := []\<rparr>"

text \<open>
  \<open>ParseState_to_string\<close> is \<open>AbslStringify\<close> on the three enumerators.
\<close>

fun ParseState_to_string :: "ParseState \<Rightarrow> string" where
  "ParseState_to_string Incomplete = ''ParseState::Incomplete''"
| "ParseState_to_string Complete = ''ParseState::Complete''"
| "ParseState_to_string Invalid = ''ParseState::Invalid''"

type_synonym consume_result = "ParseState \<times> MessageParser \<times> Message"

text \<open>Shorthands for the statements the cases repeat: \<open>NEXT(s)\<close>, \<open>m_buffer.push_back\<close>
  and \<open>m_buffer.clear\<close>.\<close>

abbreviation NEXT :: "parse_state \<Rightarrow> MessageParser \<Rightarrow> MessageParser" where
  "NEXT s p \<equiv> p\<lparr>m_state := s\<rparr>"

abbreviation push_back :: "char \<Rightarrow> MessageParser \<Rightarrow> MessageParser" where
  "push_back c p \<equiv> p\<lparr>m_buffer := m_buffer p @ [c]\<rparr>"

abbreviation clear :: "MessageParser \<Rightarrow> MessageParser" where
  "clear p \<equiv> p\<lparr>m_buffer := []\<rparr>"

definition consume_Start :: "Message \<Rightarrow> char \<Rightarrow> MessageParser \<Rightarrow> consume_result" where
  "consume_Start msg input p =
     (if input = CHR ''@'' then (Incomplete, NEXT parseStateTagKey p, msg)
      else if input = CHR '':'' then (Incomplete, NEXT parseStatePrefix p, msg)
      else if IsLetter input then
        (Incomplete, push_back input (NEXT parseStateCommandName p), msg)
      else if IsDigit input then
        (Incomplete, push_back input (NEXT parseStateCommandNumber p), msg)
      else (Invalid, p, msg))"

definition consume_TagKey :: "Message \<Rightarrow> char \<Rightarrow> MessageParser \<Rightarrow> consume_result" where
  "consume_TagKey msg input p =
     (if IsTagKeyChar input then (Incomplete, push_back input p, msg)
      else if input = CHR ''='' then
        (if m_buffer p = [] then (Invalid, p, msg)
         else (Incomplete, push_back input (NEXT parseStateTagValue p), msg))
      else if input = SP then
        (if m_buffer p \<noteq> [] then
           (Incomplete, NEXT parseStateAfterTags (clear p), AddTag_rvalue (m_buffer p) [] msg)
         else (Incomplete, NEXT parseStateAfterTags p, msg))
      else (Invalid, p, msg))"

text \<open>The body shared by the two ways a tag value ends: split \<open>m_buffer\<close> at \<open>=\<close>, pad a
  missing value, add the tag, clear the buffer. An index past the end of \<open>tags\<close>, which
  the padding and the contract of the splitter exclude, reads as the empty string.\<close>

definition nth_or_empty :: "string list \<Rightarrow> nat \<Rightarrow> string" where
  "nth_or_empty xs i = (if i < length xs then xs ! i else [])"

definition add_split_tag :: "parser_env \<Rightarrow> string \<Rightarrow> Message \<Rightarrow> Message" where
  "add_split_tag env buf msg =
     (let tags = str_split_max env (CHR ''='') 2 buf;
          tags = (if length tags < 2 then tags @ [[]] else tags)
      in AddTag (nth_or_empty tags 0) (nth_or_empty tags 1) msg)"

definition consume_TagValue ::
  "parser_env \<Rightarrow> Message \<Rightarrow> char \<Rightarrow> MessageParser \<Rightarrow> consume_result" where
  "consume_TagValue env msg input p =
     (if input = SP then
        (Incomplete, clear (NEXT parseStateAfterTags p), add_split_tag env (m_buffer p) msg)
      else if input = CHR '';'' then
        (Incomplete, clear (NEXT parseStateTagKey p), add_split_tag env (m_buffer p) msg)
      else if input \<noteq> SP \<and> input \<noteq> CR \<and> input \<noteq> LF then (Incomplete, push_back input p, msg)
      else (Invalid, p, msg))"

definition consume_AfterTags :: "Message \<Rightarrow> char \<Rightarrow> MessageParser \<Rightarrow> consume_result" where
  "consume_AfterTags msg input p =
     (if input = SP then (Incomplete, p, msg)
      else if input = CHR '':'' then (Incomplete, NEXT parseStatePrefix p, msg)
      else if IsLetter input then
        (Incomplete, push_back input (NEXT parseStateCommandName p), msg)
      else if IsDigit input then
        (Incomplete, push_back input (NEXT parseStateCommandNumber p), msg)
      else (Invalid, p, msg))"

definition consume_Prefix ::
  "parser_env \<Rightarrow> Message \<Rightarrow> char \<Rightarrow> MessageParser \<Rightarrow> consume_result" where
  "consume_Prefix env msg input p =
     (if IsPrefixChar input then (Incomplete, push_back input p, msg)
      else if input = SP then
        (if \<not> IsValidPrefix env (m_buffer p) then (Invalid, p, msg)
         else (Incomplete, clear (NEXT parseStateCommandNameOrNumber p),
               SetPrefix (m_buffer p) msg))
      else (Invalid, p, msg))"

definition consume_CommandNameOrNumber ::
  "Message \<Rightarrow> char \<Rightarrow> MessageParser \<Rightarrow> consume_result" where
  "consume_CommandNameOrNumber msg input p =
     (if IsLetter input then
        (Incomplete, push_back input (NEXT parseStateCommandName p), msg)
      else if IsDigit input then
        (Incomplete, push_back input (NEXT parseStateCommandNumber p), msg)
      else (Invalid, p, msg))"

definition consume_CommandName :: "Message \<Rightarrow> char \<Rightarrow> MessageParser \<Rightarrow> consume_result" where
  "consume_CommandName msg input p =
     (if IsLetter input then (Incomplete, push_back input p, msg)
      else if input = SP then
        (Incomplete, clear (NEXT parseStateParamStart p), SetCommand (m_buffer p) msg)
      else if input = CR then
        (Incomplete, clear (NEXT parseStateCr p), SetCommand (m_buffer p) msg)
      else (Invalid, p, msg))"

definition consume_CommandNumber :: "Message \<Rightarrow> char \<Rightarrow> MessageParser \<Rightarrow> consume_result" where
  "consume_CommandNumber msg input p =
     (if input = SP \<or> input = CR then
        (if length (m_buffer p) \<noteq> 3 then (Invalid, p, msg)
         else (Incomplete,
               clear (NEXT (if input = SP then parseStateParamStart else parseStateCr) p),
               SetCommand (m_buffer p) msg))
      else if IsDigit input \<and> length (m_buffer p) < 3 then (Incomplete, push_back input p, msg)
      else (Invalid, p, msg))"

definition consume_ParamStart ::
  "parser_env \<Rightarrow> Message \<Rightarrow> char \<Rightarrow> MessageParser \<Rightarrow> consume_result" where
  "consume_ParamStart env msg input p =
     (if input = CHR '':'' then (Incomplete, NEXT parseStateTrailing p, msg)
      else if IsParamStartChar (char_signed env) input then
        (Incomplete, push_back input (NEXT parseStateParam p), msg)
      else if input = CR then (Incomplete, NEXT parseStateCr p, msg)
      else if input = SP then (Incomplete, NEXT parseStateParamStart p, msg)
      else (Incomplete, p, msg))"

definition consume_Param ::
  "parser_env \<Rightarrow> Message \<Rightarrow> char \<Rightarrow> MessageParser \<Rightarrow> consume_result" where
  "consume_Param env msg input p =
     (if input = SP \<or> input = CR then
        (Incomplete,
         clear (NEXT (if input = SP then parseStateParamStart else parseStateCr) p),
         AddParam (m_buffer p) msg)
      else if IsParamStartChar (char_signed env) input \<or> input = CHR '':'' then
        (Incomplete, push_back input p, msg)
      else (Invalid, p, msg))"

text \<open>The trailing parameter is moved out of \<open>m_buffer\<close>, which is not cleared here.\<close>

definition consume_Trailing ::
  "parser_env \<Rightarrow> Message \<Rightarrow> char \<Rightarrow> MessageParser \<Rightarrow> consume_result" where
  "consume_Trailing env msg input p =
     (if input = CR then
        (Incomplete, NEXT parseStateCr (p\<lparr>m_buffer := moved_from env (m_buffer p)\<rparr>),
         AddParam (m_buffer p) msg)
      else if IsParamStartChar (char_signed env) input \<or> input = CHR '':'' \<or> input = SP then
        (Incomplete, push_back input p, msg)
      else (Invalid, p, msg))"

definition consume_Cr :: "Message \<Rightarrow> char \<Rightarrow> MessageParser \<Rightarrow> consume_result" where
  "consume_Cr msg input p =
     (if input = LF then (Complete, NEXT parseStateComplete p, msg) else (Invalid, p, msg))"

definition Consume :: "parser_env \<Rightarrow> Message \<Rightarrow> char \<Rightarrow> MessageParser \<Rightarrow> consume_result" where
  "Consume env msg input p =
     (if input = NUL then (Invalid, p, msg)
      else (case m_state p of
              parseStateStart \<Rightarrow> consume_Start msg input p
            | parseStateTagKey \<Rightarrow> consume_TagKey msg input p
            | parseStateTagValue \<Rightarrow> consume_TagValue env msg input p
            | parseStateAfterTags \<Rightarrow> consume_AfterTags msg input p
            | parseStatePrefix \<Rightarrow> consume_Prefix env msg input p
            | parseStateCommandNameOrNumber \<Rightarrow> consume_CommandNameOrNumber msg input p
            | parseStateCommandName \<Rightarrow> consume_CommandName msg input p
            | parseStateCommandNumber \<Rightarrow> consume_CommandNumber msg input p
            | parseStateParamStart \<Rightarrow> consume_ParamStart env msg input p
            | parseStateParam \<Rightarrow> consume_Param env msg input p
            | parseStateTrailing \<Rightarrow> consume_Trailing env msg input p
            | parseStateCr \<Rightarrow> consume_Cr msg input p
            | parseStateComplete \<Rightarrow> (Complete, p, msg)))"

text \<open>
  \<open>Parse\<close> advances the iterator, so the model returns the bytes that are left. The loop
  runs while there is input and the state is \<open>Incomplete\<close>.
\<close>

fun Parse ::
  "parser_env \<Rightarrow> Message \<Rightarrow> string \<Rightarrow> MessageParser
     \<Rightarrow> ParseState \<times> string \<times> MessageParser \<times> Message" where
  "Parse env msg [] p = (Incomplete, [], p, msg)"
| "Parse env msg (c # iter) p =
     (case Consume env msg c p of
        (Incomplete, p', msg') \<Rightarrow> Parse env msg' iter p'
      | (st, p', msg') \<Rightarrow> (st, iter, p', msg'))"

lemmas consume_defs = consume_Start_def consume_TagKey_def consume_TagValue_def
  consume_AfterTags_def consume_Prefix_def consume_CommandNameOrNumber_def
  consume_CommandName_def consume_CommandNumber_def consume_ParamStart_def
  consume_Param_def consume_Trailing_def consume_Cr_def

lemmas prefix_scan_defs = prefix_scan_step_def prefix_scan_init_def prefix_scan_verdict_def

section \<open>Well-formed messages\<close>

text \<open>
  What the parser guarantees about a message, piece by piece: the shape of tag keys and
  values, of the prefix, the command and the parameters. \<open>wf_message\<close> collects them.
\<close>

definition key_ok :: "string \<Rightarrow> bool" where
  [wf_simps]: "key_ok k \<longleftrightarrow> k \<noteq> [] \<and> list_all IsTagKeyChar k"

definition raw_value_char :: "char \<Rightarrow> bool" where
  [wf_simps]: "raw_value_char c \<longleftrightarrow> c \<notin> {NUL, SP, CR, LF, CHR '';''}"

definition value_ok :: "string \<Rightarrow> bool" where
  [wf_simps]: "value_ok v \<longleftrightarrow> list_all (\<lambda>c. raw_value_char c \<and> c \<noteq> CHR ''='') v"

definition tags_ok :: "(string, string) linked_hash_map \<Rightarrow> bool" where
  [wf_simps]: "tags_ok tags \<longleftrightarrow>
     distinct (map fst tags) \<and> list_all (\<lambda>(k, v). key_ok k \<and> value_ok v) tags"

definition prefix_ok :: "parser_env \<Rightarrow> string \<Rightarrow> bool" where
  [wf_simps]: "prefix_ok env p \<longleftrightarrow> p = [] \<or> (list_all IsPrefixChar p \<and> IsValidPrefix env p)"

definition command_ok :: "string \<Rightarrow> bool" where
  [wf_simps]: "command_ok c \<longleftrightarrow>
     (c \<noteq> [] \<and> list_all IsLetter c) \<or> (length c = 3 \<and> list_all IsDigit c)"

definition middle_char :: "bool \<Rightarrow> char \<Rightarrow> bool" where
  [wf_simps]: "middle_char sg c \<longleftrightarrow> IsParamStartChar sg c \<or> c = CHR '':''"

definition middle_ok :: "bool \<Rightarrow> string \<Rightarrow> bool" where
  [wf_simps]: "middle_ok sg p \<longleftrightarrow>
     p \<noteq> [] \<and> IsParamStartChar sg (hd p) \<and> list_all (middle_char sg) p"

definition trailing_ok :: "bool \<Rightarrow> string \<Rightarrow> bool" where
  [wf_simps]: "trailing_ok sg p \<longleftrightarrow> list_all (\<lambda>c. middle_char sg c \<or> c = SP) p"

definition params_ok :: "bool \<Rightarrow> string list \<Rightarrow> bool" where
  [wf_simps]: "params_ok sg ps \<longleftrightarrow>
     ps = [] \<or> (list_all (middle_ok sg) (butlast ps) \<and> trailing_ok sg (last ps))"

definition wf_message :: "parser_env \<Rightarrow> Message \<Rightarrow> bool" where
  "wf_message env msg \<longleftrightarrow>
     tags_ok (m_tags msg) \<and> prefix_ok env (m_prefix msg) \<and> command_ok (m_command msg)
     \<and> params_ok (char_signed env) (m_params msg)"

section \<open>The parser invariant\<close>

text \<open>
  What \<open>m_buffer\<close> and the message under construction hold in each parse state.
\<close>

definition fresh_from_command :: "Message \<Rightarrow> bool" where
  "fresh_from_command msg \<longleftrightarrow> m_command msg = [] \<and> m_params msg = []"

definition tag_value_buffer :: "string \<Rightarrow> bool" where
  "tag_value_buffer buf \<longleftrightarrow>
     (\<exists>k v. buf = k @ CHR ''='' # v \<and> key_ok k \<and> list_all raw_value_char v)"

definition state_inv :: "parser_env \<Rightarrow> parse_state \<Rightarrow> string \<Rightarrow> Message \<Rightarrow> bool" where
  "state_inv env st buf msg =
     (case st of
        parseStateStart \<Rightarrow> buf = [] \<and> msg = empty_message
      | parseStateTagKey \<Rightarrow>
          list_all IsTagKeyChar buf \<and> fresh_from_command msg \<and> m_prefix msg = []
      | parseStateTagValue \<Rightarrow>
          tag_value_buffer buf \<and> fresh_from_command msg \<and> m_prefix msg = []
      | parseStateAfterTags \<Rightarrow> buf = [] \<and> fresh_from_command msg \<and> m_prefix msg = []
      | parseStatePrefix \<Rightarrow>
          list_all IsPrefixChar buf \<and> fresh_from_command msg \<and> m_prefix msg = []
      | parseStateCommandNameOrNumber \<Rightarrow> buf = [] \<and> fresh_from_command msg
      | parseStateCommandName \<Rightarrow>
          buf \<noteq> [] \<and> list_all IsLetter buf \<and> fresh_from_command msg
      | parseStateCommandNumber \<Rightarrow>
          buf \<noteq> [] \<and> length buf \<le> 3 \<and> list_all IsDigit buf \<and> fresh_from_command msg
      | parseStateParamStart \<Rightarrow>
          buf = [] \<and> command_ok (m_command msg)
          \<and> list_all (middle_ok (char_signed env)) (m_params msg)
      | parseStateParam \<Rightarrow>
          middle_ok (char_signed env) buf \<and> command_ok (m_command msg)
          \<and> list_all (middle_ok (char_signed env)) (m_params msg)
      | parseStateTrailing \<Rightarrow>
          trailing_ok (char_signed env) buf \<and> command_ok (m_command msg)
          \<and> list_all (middle_ok (char_signed env)) (m_params msg)
      | parseStateCr \<Rightarrow>
          command_ok (m_command msg) \<and> params_ok (char_signed env) (m_params msg)
      | parseStateComplete \<Rightarrow>
          command_ok (m_command msg) \<and> params_ok (char_signed env) (m_params msg))"

definition parser_inv :: "parser_env \<Rightarrow> MessageParser \<Rightarrow> Message \<Rightarrow> bool" where
  "parser_inv env p msg \<longleftrightarrow>
     tags_ok (m_tags msg) \<and> prefix_ok env (m_prefix msg)
     \<and> state_inv env (m_state p) (m_buffer p) msg"

section \<open>Single steps\<close>

lemma Consume_NUL [simp]: "Consume env msg NUL p = (Invalid, p, msg)"
  by (simp add: Consume_def)

text \<open>A rejected byte leaves parser and message exactly as they were.\<close>

lemma Consume_Invalid_frame:
  "Consume env msg c p = (Invalid, p', msg') \<Longrightarrow> p' = p \<and> msg' = msg"
  by (cases "m_state p") (auto simp: Consume_def consume_defs split: if_splits)

lemma Consume_Complete:
  "Consume env msg c p = (Complete, p', msg') \<Longrightarrow>
     m_state p' = parseStateComplete \<and> msg' = msg
     \<and> (m_state p = parseStateCr \<and> c = LF \<or> m_state p = parseStateComplete)"
  by (cases "m_state p") (auto simp: Consume_def consume_defs split: if_splits)

lemma Consume_tags_unique:
  "Consume env msg c p = (st, p', msg') \<Longrightarrow> tags_unique msg \<Longrightarrow> tags_unique msg'"
  by (cases "m_state p")
    (auto simp: Consume_def consume_defs add_split_tag_def Let_def split: if_splits)

section \<open>The invariant is kept\<close>

lemma value_ok_takeWhile:
  "list_all raw_value_char v \<Longrightarrow> value_ok (takeWhile (\<lambda>c. c \<noteq> CHR ''='') v)"
  by (auto simp: value_ok_def list_all_iff dest: set_takeWhileD)

lemma key_ok_no_equals: "key_ok k \<Longrightarrow> CHR ''='' \<notin> set k"
  by (auto simp: key_ok_def list_all_iff char_class byte_simps)

lemma add_split_tag_eq:
  assumes "str_split (str_split_max env)" and "key_ok k"
  shows "add_split_tag env (k @ CHR ''='' # v) msg
           = AddTag k (takeWhile (\<lambda>c. c \<noteq> CHR ''='') v) msg"
  using str_split.split_two [OF assms(1) key_ok_no_equals [OF assms(2)], of v]
  by (auto simp: add_split_tag_def nth_or_empty_def)

lemma tags_ok_AddTag [simp]:
  "tags_ok (m_tags msg) \<Longrightarrow> key_ok k \<Longrightarrow> value_ok v \<Longrightarrow> tags_ok (m_tags (AddTag k v msg))"
  using set_lhm_assign [of k v "m_tags msg"]
  by (auto simp: tags_ok_def AddTag_def list_all_iff)

lemma tags_ok_AddTag_rvalue [simp]:
  "tags_ok (m_tags msg) \<Longrightarrow> key_ok k \<Longrightarrow> value_ok v
     \<Longrightarrow> tags_ok (m_tags (AddTag_rvalue k v msg))"
  using set_lhm_emplace [of k v "m_tags msg"]
  by (auto simp: tags_ok_def AddTag_rvalue_def list_all_iff)

lemma fresh_AddTag [simp]:
  "fresh_from_command (AddTag k v msg) = fresh_from_command msg"
  "fresh_from_command (AddTag_rvalue k v msg) = fresh_from_command msg"
  "m_prefix (AddTag k v msg) = m_prefix msg"
  "m_prefix (AddTag_rvalue k v msg) = m_prefix msg"
  by (simp_all add: fresh_from_command_def message_ops)

lemma middle_ok_trailing_ok: "middle_ok sg p \<Longrightarrow> trailing_ok sg p"
  by (auto simp: middle_ok_def trailing_ok_def list_all_iff)

lemma params_ok_middles: "list_all (middle_ok sg) ps \<Longrightarrow> params_ok sg ps"
  by (auto simp: params_ok_def list_all_iff intro: middle_ok_trailing_ok dest: in_set_butlastD)

lemma params_ok_snoc: "params_ok sg (ps @ [q]) = (list_all (middle_ok sg) ps \<and> trailing_ok sg q)"
  by (simp add: params_ok_def)

lemma middle_ok_Nil [simp]: "\<not> middle_ok sg []"
  by (simp add: middle_ok_def)

lemma middle_ok_snoc:
  "middle_ok sg (p @ [c]) = (if p = [] then IsParamStartChar sg c
     else middle_ok sg p \<and> middle_char sg c)"
  by (auto simp: middle_ok_def middle_char_def)

lemma tag_value_buffer_start: "key_ok k \<Longrightarrow> tag_value_buffer (k @ ''='')"
  unfolding tag_value_buffer_def by force

lemma tag_value_buffer_snoc:
  assumes "tag_value_buffer buf" and "raw_value_char c"
  shows "tag_value_buffer (buf @ [c])"
proof -
  from assms(1) obtain k v where "buf = k @ CHR ''='' # v" "key_ok k" "list_all raw_value_char v"
    by (auto simp: tag_value_buffer_def)
  with assms(2) show ?thesis
    unfolding tag_value_buffer_def by (intro exI [of _ k] exI [of _ "v @ [c]"]) simp
qed

text \<open>The tag states, where the splitting contract matters.\<close>

lemma consume_TagKey_inv:
  assumes "m_state p = parseStateTagKey" and "parser_inv env p msg"
    and "consume_TagKey msg c p = (st, p', msg')"
  shows "parser_inv env p' msg'"
proof -
  have "value_ok []" by (simp add: value_ok_def)
  with assms show ?thesis
    by (auto simp: consume_TagKey_def parser_inv_def state_inv_def key_ok_def
        intro!: tag_value_buffer_start split: if_splits)
qed

lemma consume_TagValue_inv:
  assumes "str_split (str_split_max env)"
    and "m_state p = parseStateTagValue" and "parser_inv env p msg"
    and "consume_TagValue env msg c p = (st, p', msg')" and "c \<noteq> NUL"
  shows "parser_inv env p' msg'"
proof -
  from assms(2,3) have inv: "tags_ok (m_tags msg)" "prefix_ok env (m_prefix msg)"
      "tag_value_buffer (m_buffer p)" "fresh_from_command msg" "m_prefix msg = []"
    by (auto simp: parser_inv_def state_inv_def)
  then obtain k v where kv: "m_buffer p = k @ CHR ''='' # v" "key_ok k" "list_all raw_value_char v"
    by (auto simp: tag_value_buffer_def)
  define msg1 where "msg1 = add_split_tag env (m_buffer p) msg"
  have "msg1 = AddTag k (takeWhile (\<lambda>c. c \<noteq> CHR ''='') v) msg"
    unfolding msg1_def kv(1) by (rule add_split_tag_eq [OF assms(1) kv(2)])
  then have "tags_ok (m_tags msg1)" "fresh_from_command msg1" "m_prefix msg1 = []"
    using inv kv value_ok_takeWhile by auto
  then show ?thesis using assms(2,4,5) inv
    by (auto simp: consume_TagValue_def parser_inv_def state_inv_def raw_value_char_def
        msg1_def [symmetric] intro!: tag_value_buffer_snoc split: if_splits)
qed

text \<open>Every other state is a case split over its definition.\<close>

lemmas state_inv_simps = parser_inv_def state_inv_def fresh_from_command_def message_ops

lemma consume_other_inv:
  assumes "parser_inv env p msg" and "Consume env msg c p = (st, p', msg')"
    and "m_state p \<noteq> parseStateTagKey" and "m_state p \<noteq> parseStateTagValue"
  shows "parser_inv env p' msg'"
proof (cases "m_state p")
  case parseStateStart
  with assms show ?thesis
    by (auto simp: Consume_def consume_Start_def state_inv_simps split: if_splits)
next
  case parseStateAfterTags
  with assms show ?thesis
    by (auto simp: Consume_def consume_AfterTags_def state_inv_simps split: if_splits)
next
  case parseStatePrefix
  with assms show ?thesis
    by (auto simp: Consume_def consume_Prefix_def state_inv_simps prefix_ok_def split: if_splits)
next
  case parseStateCommandNameOrNumber
  with assms show ?thesis
    by (auto simp: Consume_def consume_CommandNameOrNumber_def state_inv_simps split: if_splits)
next
  case parseStateCommandName
  with assms show ?thesis
    by (auto simp: Consume_def consume_CommandName_def state_inv_simps command_ok_def
        params_ok_def split: if_splits)
next
  case parseStateCommandNumber
  with assms show ?thesis
    by (auto simp: Consume_def consume_CommandNumber_def state_inv_simps command_ok_def
        params_ok_def split: if_splits)
next
  case parseStateParamStart
  with assms show ?thesis
    by (auto simp: Consume_def consume_ParamStart_def state_inv_simps params_ok_middles
        middle_ok_snoc [of _ "[]", simplified] trailing_ok_def split: if_splits)
next
  case parseStateParam
  with assms show ?thesis
    by (auto simp: Consume_def consume_Param_def state_inv_simps params_ok_snoc
        middle_ok_snoc middle_ok_trailing_ok middle_char_def split: if_splits)
next
  case parseStateTrailing
  with assms show ?thesis
    by (auto simp: Consume_def consume_Trailing_def state_inv_simps params_ok_snoc
        trailing_ok_def middle_char_def split: if_splits)
next
  case parseStateCr
  with assms show ?thesis
    by (auto simp: Consume_def consume_Cr_def state_inv_simps split: if_splits)
qed (use assms in \<open>auto simp: Consume_def split: if_splits\<close>)

lemma Consume_inv:
  assumes "str_split (str_split_max env)" and "parser_inv env p msg"
    and "Consume env msg c p = (st, p', msg')"
  shows "parser_inv env p' msg'"
proof (cases "c = NUL")
  case True
  with assms show ?thesis by simp
next
  case nz: False
  show ?thesis
  proof (cases "m_state p = parseStateTagKey \<or> m_state p = parseStateTagValue")
    case True
    then show ?thesis
    proof
      assume st: "m_state p = parseStateTagKey"
      with assms(3) nz have "consume_TagKey msg c p = (st, p', msg')" by (simp add: Consume_def)
      with st assms(2) show ?thesis by (rule consume_TagKey_inv)
    next
      assume st: "m_state p = parseStateTagValue"
      with assms(3) nz have "consume_TagValue env msg c p = (st, p', msg')"
        by (simp add: Consume_def)
      with assms(1) st assms(2) show ?thesis using nz by (rule consume_TagValue_inv)
    qed
  next
    case False
    with assms(2,3) show ?thesis using consume_other_inv by blast
  qed
qed

lemma parser_inv_init [simp]: "parser_inv env MessageParser_init empty_message"
  by (simp add: parser_inv_def state_inv_def MessageParser_init_def empty_message_def wf_simps)

lemma Reset_eq_init: "Reset p = MessageParser_init"
  by (simp add: Reset_def MessageParser_init_def)

lemma Parse_inv:
  assumes "str_split (str_split_max env)"
  shows "parser_inv env p msg \<Longrightarrow> Parse env msg s p = (st, rest, p', msg') \<Longrightarrow>
           parser_inv env p' msg'"
proof (induction s arbitrary: p msg)
  case Nil
  then show ?case by simp
next
  case (Cons c s)
  obtain st1 p1 msg1 where step: "Consume env msg c p = (st1, p1, msg1)"
    by (cases "Consume env msg c p")
  with Cons.prems(1) have "parser_inv env p1 msg1"
    using Consume_inv [OF assms] by blast
  with Cons step show ?case by (cases st1) auto
qed

section \<open>Runs of the parser\<close>

text \<open>
  The result of a run and the iterator: an \<open>Incomplete\<close> run used up its input, and the
  bytes left by any run are a proper suffix of it.
\<close>

lemma Parse_Incomplete_rest: "Parse env msg s p = (Incomplete, rest, p', msg') \<Longrightarrow> rest = []"
  by (induction s arbitrary: p msg) (auto split: ParseState.splits prod.splits)

lemma Parse_suffix:
  "Parse env msg (c # s) p = (st, rest, p', msg') \<Longrightarrow> \<exists>used. used \<noteq> [] \<and> c # s = used @ rest"
proof (induction s arbitrary: c p msg)
  case Nil
  then show ?case
    by (intro exI [of _ "[c]"]) (auto split: ParseState.splits prod.splits)
next
  case (Cons d s)
  obtain st1 p1 msg1 where step: "Consume env msg c p = (st1, p1, msg1)"
    by (cases "Consume env msg c p")
  show ?case
  proof (cases "st1 = Incomplete")
    case True
    with Cons.prems step have "Parse env msg1 (d # s) p1 = (st, rest, p', msg')" by simp
    then obtain used where "d # s = used @ rest" using Cons.IH by blast
    then show ?thesis by (intro exI [of _ "c # used"]) simp
  next
    case False
    with Cons.prems step have "rest = d # s" by (cases st1) auto
    then show ?thesis by (intro exI [of _ "[c]"]) simp
  qed
qed

lemma Parse_rest_shorter:
  "Parse env msg (c # s) p = (st, rest, p', msg') \<Longrightarrow> length rest < length (c # s)"
proof -
  assume "Parse env msg (c # s) p = (st, rest, p', msg')"
  then obtain used where "used \<noteq> []" and "c # s = used @ rest" using Parse_suffix by blast
  then have "length (c # s) = length used + length rest" and "0 < length used" by simp_all
  then show ?thesis by linarith
qed

text \<open>Feeding the input in two pieces is feeding it at once.\<close>

lemma Parse_append:
  "Parse env msg (xs @ ys) p =
     (case Parse env msg xs p of
        (Incomplete, rest, p', msg') \<Rightarrow> Parse env msg' ys p'
      | (st, rest, p', msg') \<Rightarrow> (st, rest @ ys, p', msg'))"
  by (induction xs arbitrary: p msg) (auto split: ParseState.splits prod.splits)

lemma Parse_append_Incomplete:
  "Parse env msg xs p = (Incomplete, rest, p', msg') \<Longrightarrow>
     Parse env msg (xs @ ys) p = Parse env msg' ys p'"
  by (simp add: Parse_append)

text \<open>A completed run read a line feed as its last byte and delivers the message it built.\<close>

lemma Parse_Complete_state:
  "Parse env msg s p = (Complete, rest, p', msg') \<Longrightarrow> m_state p' = parseStateComplete"
  by (induction s arbitrary: p msg)
    (auto split: ParseState.splits prod.splits dest: Consume_Complete)

lemma parser_inv_Complete_wf:
  "parser_inv env p msg \<Longrightarrow> m_state p = parseStateComplete \<Longrightarrow> wf_message env msg"
  by (simp add: parser_inv_def state_inv_def wf_message_def)

lemma Parse_Complete_wf:
  assumes "str_split (str_split_max env)" and "parser_inv env p msg"
    and "Parse env msg s p = (Complete, rest, p', msg')"
  shows "wf_message env msg'"
  using Parse_inv [OF assms] Parse_Complete_state [OF assms(3)] by (rule parser_inv_Complete_wf)

end
