(* ===== verification/Message_Serializer.thy ===== *)
theory Message_Serializer
  imports Irc_Message
begin

text \<open>
  \<open>server/MessageSerializer.h\<close> and \<open>server/MessageSerializer.cc\<close>. The template
  \<open>SerializeMessage\<close> writes to any sink with two \<open>Append\<close> overloads; here it takes them
  as arguments. The locale \<open>byte_sink\<close> is what it asks of a sink; both sinks of the
  source, the measuring one and the one that writes into a caller's buffer, interpret it.
  A write outside the buffer, undefined behaviour in the source, is the value \<open>None\<close>.
  Lengths are natural numbers: they count bytes of strings held in memory.
\<close>

section \<open>Sinks\<close>

record MeasuringSink =
  m_size :: nat

definition MeasuringSink_init :: MeasuringSink where
  "MeasuringSink_init = \<lparr>m_size = 0\<rparr>"

definition MeasuringSink_Append_text :: "MeasuringSink \<Rightarrow> string \<Rightarrow> MeasuringSink" where
  "MeasuringSink_Append_text sink str = sink\<lparr>m_size := m_size sink + length str\<rparr>"

definition MeasuringSink_Append_char :: "MeasuringSink \<Rightarrow> char \<Rightarrow> MeasuringSink" where
  "MeasuringSink_Append_char sink c = sink\<lparr>m_size := m_size sink + 1\<rparr>"

definition MeasuringSink_Size :: "MeasuringSink \<Rightarrow> nat" where
  "MeasuringSink_Size sink = m_size sink"

record BufferSink =
  bs_buffer :: string
  m_offset :: nat

definition BufferSink_init :: "string \<Rightarrow> BufferSink option" where
  "BufferSink_init buffer = Some \<lparr>bs_buffer = buffer, m_offset = 0\<rparr>"

text \<open>\<open>memcpy\<close> of the whole text at the offset.\<close>

definition BufferSink_Append_text :: "BufferSink option \<Rightarrow> string \<Rightarrow> BufferSink option" where
  "BufferSink_Append_text sink str =
     (case sink of
        None \<Rightarrow> None
      | Some b \<Rightarrow>
          if m_offset b + length str \<le> length (bs_buffer b)
          then Some (b\<lparr>bs_buffer := take (m_offset b) (bs_buffer b) @ str
                                     @ drop (m_offset b + length str) (bs_buffer b),
                       m_offset := m_offset b + length str\<rparr>)
          else None)"

definition BufferSink_Append_char :: "BufferSink option \<Rightarrow> char \<Rightarrow> BufferSink option" where
  "BufferSink_Append_char sink c =
     (case sink of
        None \<Rightarrow> None
      | Some b \<Rightarrow>
          if m_offset b < length (bs_buffer b)
          then Some (b\<lparr>bs_buffer := (bs_buffer b)[m_offset b := c], m_offset := m_offset b + 1\<rparr>)
          else None)"

definition BufferSink_Size :: "BufferSink \<Rightarrow> nat" where
  "BufferSink_Size sink = m_offset sink"

section \<open>The wire format\<close>

definition RequiresTrailingMarker :: "string \<Rightarrow> bool" where
  "RequiresTrailingMarker param = (param = [] \<or> hd param = CHR '':'' \<or> SP \<in> set param)"

text \<open>The loop over the tags, with its \<open>first\<close> flag.\<close>

fun serialize_tags ::
  "('s \<Rightarrow> string \<Rightarrow> 's) \<Rightarrow> ('s \<Rightarrow> char \<Rightarrow> 's) \<Rightarrow> bool \<Rightarrow> (string \<times> string) list \<Rightarrow> 's \<Rightarrow> 's" where
  "serialize_tags append_text append_char first [] sink = sink"
| "serialize_tags append_text append_char first ((key, val) # tags) sink =
     (let sink = (if \<not> first then append_char sink (CHR '';'') else sink);
          sink = append_text sink key;
          sink = (if val \<noteq> [] then append_text (append_char sink (CHR ''='')) val else sink)
      in serialize_tags append_text append_char False tags sink)"

text \<open>The loop over the parameters; the last one is recognised by its position.\<close>

fun serialize_params ::
  "('s \<Rightarrow> string \<Rightarrow> 's) \<Rightarrow> ('s \<Rightarrow> char \<Rightarrow> 's) \<Rightarrow> string list \<Rightarrow> 's \<Rightarrow> 's" where
  "serialize_params append_text append_char [] sink = sink"
| "serialize_params append_text append_char (param # params) sink =
     (let sink = append_char sink SP;
          isLast = (params = []);
          sink = (if isLast \<and> RequiresTrailingMarker param
                  then append_char sink (CHR '':'') else sink)
      in serialize_params append_text append_char params (append_text sink param))"

definition SerializeMessage ::
  "('s \<Rightarrow> string \<Rightarrow> 's) \<Rightarrow> ('s \<Rightarrow> char \<Rightarrow> 's) \<Rightarrow> 's \<Rightarrow> Message \<Rightarrow> 's" where
  "SerializeMessage append_text append_char sink msg =
     (let sink = (if m_tags msg \<noteq> [] then
                    append_char
                      (serialize_tags append_text append_char True (m_tags msg)
                         (append_char sink (CHR ''@'')))
                      SP
                  else sink);
          sink = (if m_prefix msg \<noteq> [] then
                    append_char (append_text (append_char sink (CHR '':'')) (m_prefix msg)) SP
                  else sink);
          sink = append_text sink (m_command msg);
          sink = serialize_params append_text append_char (m_params msg) sink
      in append_char (append_char sink CR) LF)"

definition ComputeRequiredSpace :: "Message \<Rightarrow> nat" where
  "ComputeRequiredSpace msg =
     MeasuringSink_Size
       (SerializeMessage MeasuringSink_Append_text MeasuringSink_Append_char MeasuringSink_init msg)"

text \<open>\<open>WriteToBuffer\<close> changes the caller's buffer and returns the byte count.\<close>

definition WriteToBuffer :: "string \<Rightarrow> Message \<Rightarrow> (nat \<times> string) option" where
  "WriteToBuffer buffer msg =
     (case SerializeMessage BufferSink_Append_text BufferSink_Append_char (BufferSink_init buffer) msg of
        None \<Rightarrow> None
      | Some sink \<Rightarrow> Some (BufferSink_Size sink, bs_buffer sink))"

section \<open>The line a message stands for\<close>

text \<open>The bytes of a message, written without sinks.\<close>

definition tag_text :: "string \<times> string \<Rightarrow> string" where
  "tag_text kv = fst kv @ (if snd kv = [] then [] else CHR ''='' # snd kv)"

definition tags_text :: "(string \<times> string) list \<Rightarrow> string" where
  "tags_text tags =
     (if tags = [] then [] else CHR ''@'' # join_with '';'' (map tag_text tags) @ [SP])"

definition prefix_text :: "string \<Rightarrow> string" where
  "prefix_text p = (if p = [] then [] else CHR '':'' # p @ [SP])"

fun params_text :: "string list \<Rightarrow> string" where
  "params_text [] = []"
| "params_text [q] = SP # (if RequiresTrailingMarker q then CHR '':'' # q else q)"
| "params_text (q # r # qs) = SP # q @ params_text (r # qs)"

definition wire_text :: "Message \<Rightarrow> string" where
  "wire_text msg =
     tags_text (m_tags msg) @ prefix_text (m_prefix msg) @ m_command msg
     @ params_text (m_params msg) @ [CR, LF]"

section \<open>What the serializer asks of a sink\<close>

text \<open>
  Appending a text is appending its bytes one after the other. Under that law
  \<open>SerializeMessage\<close> appends exactly the bytes of \<open>wire_text\<close>, whatever the sink does
  with them: the measuring and the writing path cannot drift apart.
\<close>

locale byte_sink =
  fixes append_text :: "'s \<Rightarrow> string \<Rightarrow> 's"
    and append_char :: "'s \<Rightarrow> char \<Rightarrow> 's"
    and invar :: "'s \<Rightarrow> bool"
  assumes append_text_bytes: "invar s \<Longrightarrow> append_text s str = foldl append_char s str"
    and invar_append_char: "invar s \<Longrightarrow> invar (append_char s c)"
begin

lemma invar_foldl [simp]: "invar s \<Longrightarrow> invar (foldl append_char s str)"
  by (induction str arbitrary: s) (simp_all add: invar_append_char)

lemmas sink_simps = append_text_bytes invar_append_char

lemma serialize_tags_later:
  "invar s \<Longrightarrow> serialize_tags append_text append_char False tags s =
     foldl append_char s (concat (map (\<lambda>kv. CHR '';'' # tag_text kv) tags))"
  by (induction tags arbitrary: s) (auto simp: sink_simps tag_text_def Let_def)

lemma serialize_tags_first:
  "invar s \<Longrightarrow> serialize_tags append_text append_char True (kv # tags) s =
     foldl append_char s (tag_text kv @ concat (map (\<lambda>kv. CHR '';'' # tag_text kv) tags))"
  by (cases kv) (auto simp: sink_simps tag_text_def serialize_tags_later Let_def)

lemma serialize_params_bytes:
  "invar s \<Longrightarrow> serialize_params append_text append_char params s
     = foldl append_char s (params_text params)"
  by (induction params arbitrary: s rule: params_text.induct) (auto simp: sink_simps Let_def)

lemma serialize_tags_bytes:
  "tags \<noteq> [] \<Longrightarrow> invar s \<Longrightarrow> serialize_tags append_text append_char True tags s =
     foldl append_char s (join_with '';'' (map tag_text tags))"
  by (cases tags) (simp_all add: serialize_tags_first join_with_concat comp_def)

theorem SerializeMessage_bytes:
  "invar s \<Longrightarrow> SerializeMessage append_text append_char s msg = foldl append_char s (wire_text msg)"
  by (simp add: SerializeMessage_def wire_text_def tags_text_def prefix_text_def Let_def
      sink_simps serialize_params_bytes serialize_tags_bytes)

end

section \<open>The two sinks\<close>

lemma foldl_MeasuringSink:
  "foldl MeasuringSink_Append_char s str = s\<lparr>m_size := m_size s + length str\<rparr>"
  by (induction str arbitrary: s) (simp_all add: MeasuringSink_Append_char_def)

interpretation measure: byte_sink MeasuringSink_Append_text MeasuringSink_Append_char "\<lambda>_. True"
  by unfold_locales (simp_all add: foldl_MeasuringSink MeasuringSink_Append_text_def)

text \<open>The offset of a buffer sink stays inside its buffer.\<close>

definition BufferSink_invar :: "BufferSink option \<Rightarrow> bool" where
  "BufferSink_invar sink =
     (case sink of None \<Rightarrow> True | Some b \<Rightarrow> m_offset b \<le> length (bs_buffer b))"

lemma foldl_BufferSink_None: "foldl BufferSink_Append_char None str = None"
  by (induction str) (simp_all add: BufferSink_Append_char_def)

lemma BufferSink_text_Cons:
  assumes "m_offset b < length (bs_buffer b)"
  shows "BufferSink_Append_text (BufferSink_Append_char (Some b) c) cs
           = BufferSink_Append_text (Some b) (c # cs)"
proof -
  let ?n = "m_offset b"
  have "take (Suc ?n) ((bs_buffer b)[?n := c]) = take ?n (bs_buffer b) @ [c]"
    using assms by (simp add: take_Suc_conv_app_nth take_update_cancel)
  moreover have "drop (Suc ?n + length cs) ((bs_buffer b)[?n := c])
      = drop (?n + Suc (length cs)) (bs_buffer b)"
    by (simp add: drop_update_cancel)
  ultimately show ?thesis using assms
    by (simp add: BufferSink_Append_text_def BufferSink_Append_char_def)
qed

lemma foldl_BufferSink:
  "m_offset b \<le> length (bs_buffer b) \<Longrightarrow>
     foldl BufferSink_Append_char (Some b) str = BufferSink_Append_text (Some b) str"
proof (induction str arbitrary: b)
  case Nil
  then show ?case by (simp add: BufferSink_Append_text_def)
next
  case (Cons c cs)
  show ?case
  proof (cases "m_offset b < length (bs_buffer b)")
    case True
    then obtain b' where b': "BufferSink_Append_char (Some b) c = Some b'"
        "m_offset b' \<le> length (bs_buffer b')"
      by (auto simp: BufferSink_Append_char_def)
    with Cons.IH [of b'] BufferSink_text_Cons [OF True, of c cs] show ?thesis by simp
  next
    case False
    then have "BufferSink_Append_char (Some b) c = None"
      by (simp add: BufferSink_Append_char_def)
    with False show ?thesis
      by (simp add: BufferSink_Append_text_def foldl_BufferSink_None)
  qed
qed

interpretation buffer: byte_sink BufferSink_Append_text BufferSink_Append_char BufferSink_invar
proof unfold_locales
  fix s :: "BufferSink option" and str :: string
  assume "BufferSink_invar s"
  then show "BufferSink_Append_text s str = foldl BufferSink_Append_char s str"
    by (cases s) (simp_all add: BufferSink_invar_def foldl_BufferSink foldl_BufferSink_None,
        simp add: BufferSink_Append_text_def)
next
  fix s :: "BufferSink option" and c :: char
  show "BufferSink_invar s \<Longrightarrow> BufferSink_invar (BufferSink_Append_char s c)"
    by (auto simp: BufferSink_invar_def BufferSink_Append_char_def split: option.splits)
qed

section \<open>Measuring and writing agree\<close>

lemma ComputeRequiredSpace_eq: "ComputeRequiredSpace msg = length (wire_text msg)"
  by (simp add: ComputeRequiredSpace_def measure.SerializeMessage_bytes foldl_MeasuringSink
      MeasuringSink_Size_def MeasuringSink_init_def)

lemma WriteToBuffer_eq:
  "WriteToBuffer buffer msg =
     (if length (wire_text msg) \<le> length buffer
      then Some (length (wire_text msg), wire_text msg @ drop (length (wire_text msg)) buffer)
      else None)"
  by (simp add: WriteToBuffer_def buffer.SerializeMessage_bytes BufferSink_init_def
      BufferSink_invar_def foldl_BufferSink BufferSink_Append_text_def BufferSink_Size_def)

end
