(* ===== verification/Wire_Roundtrip.thy ===== *)
theory Wire_Roundtrip
  imports Message_Parser Message_Serializer
begin

text \<open>
  Parser against serializer: the bytes \<open>SerializeMessage\<close> produces for a well-formed
  message parse back to that message. The lemmas follow the line from its end to its
  beginning: terminator, parameters, command, prefix, tags.
\<close>

section \<open>Bytes that are only buffered\<close>

lemma Parse_buffering:
  assumes "\<And>c b. P c \<Longrightarrow> Consume env msg c \<lparr>m_state = st, m_buffer = b\<rparr>
             = (Incomplete, \<lparr>m_state = st, m_buffer = b @ [c]\<rparr>, msg)"
  shows "list_all P s \<Longrightarrow> Parse env msg (s @ rest) \<lparr>m_state = st, m_buffer = b\<rparr>
           = Parse env msg rest \<lparr>m_state = st, m_buffer = b @ s\<rparr>"
  by (induction s arbitrary: b) (simp_all add: assms)

lemma not_special_bytes:
  "IsParamStartChar sg c \<Longrightarrow> c \<notin> {NUL, SP, CR, LF, CHR '':''}"
  "IsLetter c \<Longrightarrow> c \<notin> {NUL, SP, CR, LF, CHR '':'', CHR ''@''}"
  "IsDigit c \<Longrightarrow> c \<notin> {NUL, SP, CR, LF, CHR '':'', CHR ''@''} \<and> \<not> IsLetter c"
  "IsTagKeyChar c \<Longrightarrow> c \<notin> {NUL, SP, CR, LF, CHR ''='', CHR '';''}"
  "IsPrefixChar c \<Longrightarrow> c \<notin> {NUL, SP, CR, LF}"
  by (auto simp: char_class byte_simps)

lemma not_in_class [simp]:
  "\<not> IsParamStartChar sg SP" "\<not> IsParamStartChar sg CR" "\<not> IsParamStartChar sg (CHR '':'')"
  "\<not> IsLetter SP" "\<not> IsLetter CR" "\<not> IsTagKeyChar (CHR ''='')" "\<not> IsTagKeyChar SP"
  "\<not> IsPrefixChar SP"
  by (auto simp: char_class byte_simps)

lemma buffer_Trailing:
  "trailing_ok (char_signed env) s \<Longrightarrow>
     Parse env msg (s @ rest) \<lparr>m_state = parseStateTrailing, m_buffer = b\<rparr>
       = Parse env msg rest \<lparr>m_state = parseStateTrailing, m_buffer = b @ s\<rparr>"
  unfolding trailing_ok_def
  by (rule Parse_buffering)
    (auto simp: Consume_def consume_Trailing_def middle_char_def dest: not_special_bytes)

lemma buffer_Param:
  "list_all (middle_char (char_signed env)) s \<Longrightarrow>
     Parse env msg (s @ rest) \<lparr>m_state = parseStateParam, m_buffer = b\<rparr>
       = Parse env msg rest \<lparr>m_state = parseStateParam, m_buffer = b @ s\<rparr>"
  by (rule Parse_buffering)
    (auto simp: Consume_def consume_Param_def middle_char_def dest: not_special_bytes)

lemma buffer_CommandName:
  "list_all IsLetter s \<Longrightarrow>
     Parse env msg (s @ rest) \<lparr>m_state = parseStateCommandName, m_buffer = b\<rparr>
       = Parse env msg rest \<lparr>m_state = parseStateCommandName, m_buffer = b @ s\<rparr>"
  by (rule Parse_buffering) (auto simp: Consume_def consume_CommandName_def dest: not_special_bytes)

lemma buffer_Prefix:
  "list_all IsPrefixChar s \<Longrightarrow>
     Parse env msg (s @ rest) \<lparr>m_state = parseStatePrefix, m_buffer = b\<rparr>
       = Parse env msg rest \<lparr>m_state = parseStatePrefix, m_buffer = b @ s\<rparr>"
  by (rule Parse_buffering) (auto simp: Consume_def consume_Prefix_def dest: not_special_bytes)

lemma buffer_TagKey:
  "list_all IsTagKeyChar s \<Longrightarrow>
     Parse env msg (s @ rest) \<lparr>m_state = parseStateTagKey, m_buffer = b\<rparr>
       = Parse env msg rest \<lparr>m_state = parseStateTagKey, m_buffer = b @ s\<rparr>"
  by (rule Parse_buffering) (auto simp: Consume_def consume_TagKey_def dest: not_special_bytes)

lemma buffer_TagValue:
  "list_all raw_value_char s \<Longrightarrow>
     Parse env msg (s @ rest) \<lparr>m_state = parseStateTagValue, m_buffer = b\<rparr>
       = Parse env msg rest \<lparr>m_state = parseStateTagValue, m_buffer = b @ s\<rparr>"
  by (rule Parse_buffering) (auto simp: Consume_def consume_TagValue_def raw_value_char_def)

section \<open>Parameters and terminator\<close>

lemma Parse_last_trailing:
  "trailing_ok (char_signed env) q \<Longrightarrow>
   \<exists>p'. Parse env msg (CHR '':'' # q @ [CR, LF]) \<lparr>m_state = parseStateParamStart, m_buffer = []\<rparr>
          = (Complete, [], p', AddParam q msg)"
  by (simp add: Consume_def consume_ParamStart_def buffer_Trailing consume_Trailing_def
      consume_Cr_def)

lemma Parse_middle:
  assumes "middle_ok (char_signed env) q"
  shows "Parse env msg (q @ rest) \<lparr>m_state = parseStateParamStart, m_buffer = []\<rparr>
           = Parse env msg rest \<lparr>m_state = parseStateParam, m_buffer = q\<rparr>"
proof -
  from assms obtain c cs where q: "q = c # cs" "IsParamStartChar (char_signed env) c"
      "list_all (middle_char (char_signed env)) cs"
    by (cases q) (auto simp: middle_ok_def)
  then show ?thesis
    using not_special_bytes(1) [OF q(2)] buffer_Param [OF q(3), of msg rest "[c]"]
    by (simp add: Consume_def consume_ParamStart_def)
qed

lemma Parse_last_middle:
  "middle_ok (char_signed env) q \<Longrightarrow>
   \<exists>p'. Parse env msg (q @ [CR, LF]) \<lparr>m_state = parseStateParamStart, m_buffer = []\<rparr>
          = (Complete, [], p', AddParam q msg)"
  by (simp add: Parse_middle Consume_def consume_Param_def consume_Cr_def)

lemma trailing_without_marker:
  "trailing_ok sg q \<Longrightarrow> \<not> RequiresTrailingMarker q \<Longrightarrow> middle_ok sg q"
  by (cases q) (auto simp: trailing_ok_def RequiresTrailingMarker_def middle_ok_def
      middle_char_def list_all_iff)

lemma Parse_params:
  "ps \<noteq> [] \<Longrightarrow> params_ok (char_signed env) ps \<Longrightarrow>
   \<exists>p'. Parse env msg (tl (params_text ps) @ [CR, LF])
          \<lparr>m_state = parseStateParamStart, m_buffer = []\<rparr>
        = (Complete, [], p', msg\<lparr>m_params := m_params msg @ ps\<rparr>)"
proof (induction ps arbitrary: msg rule: params_text.induct)
  case 1
  then show ?case by simp
next
  case (2 q)
  then have q: "trailing_ok (char_signed env) q" by (simp add: params_ok_def)
  show ?case
    using Parse_last_trailing [OF q, of msg] trailing_without_marker [OF q]
      Parse_last_middle [of env q msg]
    by (auto simp: AddParam_def)
next
  case (3 q r qs)
  then have q: "middle_ok (char_signed env) q" and rs: "params_ok (char_signed env) (r # qs)"
    by (auto simp: params_ok_def)
  obtain t where t: "params_text (r # qs) = SP # t" by (cases qs) simp_all
  from "3.IH" [OF _ rs, of "AddParam q msg"] obtain p' where
    "Parse env (AddParam q msg) (t @ [CR, LF]) \<lparr>m_state = parseStateParamStart, m_buffer = []\<rparr>
       = (Complete, [], p', msg\<lparr>m_params := m_params msg @ q # r # qs\<rparr>)"
    by (auto simp: t AddParam_def)
  then show ?case
    by (simp add: t Parse_middle [OF q] Consume_def consume_Param_def)
qed

section \<open>Command\<close>

lemma Parse_command_number:
  assumes "length cmd = 3" and "list_all IsDigit cmd"
    and "st \<in> {parseStateStart, parseStateAfterTags, parseStateCommandNameOrNumber}"
  shows "Parse env msg (cmd @ rest) \<lparr>m_state = st, m_buffer = []\<rparr>
           = Parse env msg rest \<lparr>m_state = parseStateCommandNumber, m_buffer = cmd\<rparr>"
proof -
  from assms(1) obtain a b c where cmd: "cmd = [a, b, c]"
    by (auto simp: length_Suc_conv eval_nat_numeral)
  with assms(2) have "IsDigit a" "IsDigit b" "IsDigit c" by simp_all
  then show ?thesis using assms(3) not_special_bytes(3)
    by (auto simp: cmd Consume_def consume_Start_def consume_AfterTags_def
        consume_CommandNameOrNumber_def consume_CommandNumber_def)
qed

lemma Parse_command_name:
  assumes "cmd \<noteq> []" and "list_all IsLetter cmd"
    and "st \<in> {parseStateStart, parseStateAfterTags, parseStateCommandNameOrNumber}"
  shows "Parse env msg (cmd @ rest) \<lparr>m_state = st, m_buffer = []\<rparr>
           = Parse env msg rest \<lparr>m_state = parseStateCommandName, m_buffer = cmd\<rparr>"
proof -
  from assms(1,2) obtain c cs where cmd: "cmd = c # cs" "IsLetter c" "list_all IsLetter cs"
    by (cases cmd) auto
  then show ?thesis
    using assms(3) not_special_bytes(2) [OF cmd(2)] buffer_CommandName [OF cmd(3), of env msg rest "[c]"]
    by (auto simp: Consume_def consume_Start_def consume_AfterTags_def
        consume_CommandNameOrNumber_def)
qed

text \<open>After the command comes a space or the carriage return.\<close>

lemma Parse_command:
  assumes "command_ok cmd" and "c = SP \<or> c = CR"
    and "st \<in> {parseStateStart, parseStateAfterTags, parseStateCommandNameOrNumber}"
  shows "Parse env msg (cmd @ c # rest) \<lparr>m_state = st, m_buffer = []\<rparr>
           = Parse env (SetCommand cmd msg) rest
               \<lparr>m_state = (if c = SP then parseStateParamStart else parseStateCr), m_buffer = []\<rparr>"
  using assms(1) unfolding command_ok_def
proof
  assume "cmd \<noteq> [] \<and> list_all IsLetter cmd"
  with assms(2) show ?thesis
    by (auto simp: Parse_command_name [OF _ _ assms(3)] Consume_def consume_CommandName_def)
next
  assume "length cmd = 3 \<and> list_all IsDigit cmd"
  with assms(2) show ?thesis
    by (auto simp: Parse_command_number [OF _ _ assms(3)] Consume_def consume_CommandNumber_def)
qed

definition command_line :: "string \<Rightarrow> string list \<Rightarrow> string" where
  "command_line cmd ps = cmd @ params_text ps @ [CR, LF]"

lemma Parse_command_line:
  assumes "command_ok cmd" and "params_ok (char_signed env) ps"
    and "st \<in> {parseStateStart, parseStateAfterTags, parseStateCommandNameOrNumber}"
    and "m_params msg = []"
  shows "\<exists>p'. Parse env msg (command_line cmd ps) \<lparr>m_state = st, m_buffer = []\<rparr>
           = (Complete, [], p', msg\<lparr>m_command := cmd, m_params := ps\<rparr>)"
proof (cases "ps = []")
  case True
  then show ?thesis using assms
    by (cases msg) (simp add: command_line_def Parse_command Consume_def consume_Cr_def SetCommand_def)
next
  case False
  then obtain t where t: "params_text ps = SP # t"
    by (cases ps rule: params_text.cases) simp_all
  from Parse_params [OF False assms(2), of "SetCommand cmd msg"] show ?thesis
    using assms(1,3,4) by (simp add: command_line_def t Parse_command SetCommand_def)
qed

section \<open>Prefix\<close>

lemma Parse_prefix:
  assumes "prefix_ok env pre" and "command_ok cmd" and "params_ok (char_signed env) ps"
    and "st \<in> {parseStateStart, parseStateAfterTags}"
    and "m_params msg = []" and "m_prefix msg = []"
  shows "\<exists>p'. Parse env msg (prefix_text pre @ command_line cmd ps) \<lparr>m_state = st, m_buffer = []\<rparr>
           = (Complete, [], p', msg\<lparr>m_prefix := pre, m_command := cmd, m_params := ps\<rparr>)"
proof (cases "pre = []")
  case True
  moreover have "msg\<lparr>m_prefix := []\<rparr> = msg" using assms(6) by simp
  ultimately show ?thesis
    using Parse_command_line [OF assms(2,3) _ assms(5), of st] assms(4)
    by (auto simp: prefix_text_def)
next
  case False
  with assms(1) have pre: "list_all IsPrefixChar pre" "IsValidPrefix env pre"
    by (auto simp: prefix_ok_def)
  have "Parse env msg (prefix_text pre @ command_line cmd ps) \<lparr>m_state = st, m_buffer = []\<rparr>
      = Parse env (SetPrefix pre msg) (command_line cmd ps)
          \<lparr>m_state = parseStateCommandNameOrNumber, m_buffer = []\<rparr>"
    using False assms(4) pre
    by (auto simp: prefix_text_def Consume_def consume_Start_def consume_AfterTags_def
        buffer_Prefix consume_Prefix_def)
  then show ?thesis
    using Parse_command_line [OF assms(2,3), of parseStateCommandNameOrNumber "SetPrefix pre msg"]
      assms(5)
    by (auto simp: SetPrefix_def)
qed

section \<open>Tags\<close>

text \<open>
  Only the last tag may have an empty value: the serializer prints an empty value as a
  bare key, which the parser accepts before the space but not before a semicolon.
\<close>

definition tags_printable :: "(string \<times> string) list \<Rightarrow> bool" where
  "tags_printable tags \<longleftrightarrow> list_all (\<lambda>(k, v). v \<noteq> []) (butlast tags)"

lemma value_ok_raw: "value_ok v \<Longrightarrow> list_all raw_value_char v \<and> CHR ''='' \<notin> set v"
  by (auto simp: value_ok_def list_all_iff)

text \<open>One tag with a value, up to the byte that ends it.\<close>

lemma Parse_tag_value:
  assumes "str_split (str_split_max env)" and "key_ok k" and "value_ok v" and "v \<noteq> []"
    and "c = SP \<or> c = CHR '';''"
  shows "Parse env msg (tag_text (k, v) @ c # rest) \<lparr>m_state = parseStateTagKey, m_buffer = []\<rparr>
           = Parse env (AddTag k v msg) rest
               \<lparr>m_state = (if c = SP then parseStateAfterTags else parseStateTagKey),
                m_buffer = []\<rparr>"
proof -
  have v: "takeWhile (\<lambda>c. c \<noteq> CHR ''='') v = v"
    using value_ok_raw [OF assms(3)] by (auto simp: takeWhile_eq_all_conv)
  have "Parse env msg (tag_text (k, v) @ c # rest) \<lparr>m_state = parseStateTagKey, m_buffer = []\<rparr>
      = Parse env msg (v @ c # rest) \<lparr>m_state = parseStateTagValue, m_buffer = k @ ''=''\<rparr>"
    using assms(2,4) by (simp add: tag_text_def key_ok_def buffer_TagKey Consume_def consume_TagKey_def)
  also have "\<dots> = Parse env msg (c # rest) \<lparr>m_state = parseStateTagValue, m_buffer = k @ CHR ''='' # v\<rparr>"
    using value_ok_raw [OF assms(3)] by (simp add: buffer_TagValue)
  finally show ?thesis
    using assms(5) add_split_tag_eq [OF assms(1,2), of v msg]
    by (auto simp: Consume_def consume_TagValue_def v)
qed

lemma Parse_tag_bare:
  assumes "key_ok k"
  shows "Parse env msg (tag_text (k, []) @ SP # rest) \<lparr>m_state = parseStateTagKey, m_buffer = []\<rparr>
           = Parse env (AddTag_rvalue k [] msg) rest \<lparr>m_state = parseStateAfterTags, m_buffer = []\<rparr>"
  using assms by (simp add: tag_text_def key_ok_def buffer_TagKey Consume_def consume_TagKey_def)

lemma Parse_tags:
  assumes "str_split (str_split_max env)"
  shows "tags \<noteq> [] \<Longrightarrow> tags_ok (m_tags msg @ tags) \<Longrightarrow> tags_printable tags \<Longrightarrow>
    Parse env msg (join_with '';'' (map tag_text tags) @ SP # rest)
      \<lparr>m_state = parseStateTagKey, m_buffer = []\<rparr>
    = Parse env (msg\<lparr>m_tags := m_tags msg @ tags\<rparr>) rest
        \<lparr>m_state = parseStateAfterTags, m_buffer = []\<rparr>"
proof (induction tags arbitrary: msg)
  case Nil
  then show ?case by simp
next
  case (Cons kv tags)
  obtain k v where kv: "kv = (k, v)" by (cases kv)
  with Cons.prems have k: "key_ok k" "value_ok v" "k \<notin> fst ` set (m_tags msg)"
    by (auto simp: tags_ok_def)
  have add: "AddTag k w msg = msg\<lparr>m_tags := m_tags msg @ [(k, w)]\<rparr>"
      "AddTag_rvalue k w msg = msg\<lparr>m_tags := m_tags msg @ [(k, w)]\<rparr>" for w
    using k(3) by (simp_all add: AddTag_def AddTag_rvalue_def lhm_assign_fresh lhm_emplace_fresh)
  show ?case
  proof (cases "tags = []")
    case True
    then show ?thesis
      using Parse_tag_value [OF assms k(1,2), of SP msg rest] Parse_tag_bare [OF k(1), of env msg rest]
      by (cases "v = []") (simp_all add: kv add)
  next
    case False
    with Cons.prems have "v \<noteq> []" "tags_printable tags"
        "tags_ok ((m_tags msg @ [(k, v)]) @ tags)"
      by (auto simp: tags_printable_def kv)
    then show ?thesis
      using Cons.IH [OF False, of "AddTag k v msg"] False
      by (simp add: kv join_with_Cons Parse_tag_value [OF assms k(1,2)] add)
  qed
qed

section \<open>The whole line\<close>

lemma Parse_wire_text:
  assumes "str_split (str_split_max env)" and "wf_message env msg"
    and "tags_printable (m_tags msg)"
  shows "\<exists>p'. Parse env empty_message (wire_text msg) MessageParser_init = (Complete, [], p', msg)"
proof -
  from assms(2) have wf: "tags_ok (m_tags msg)" "prefix_ok env (m_prefix msg)"
      "command_ok (m_command msg)" "params_ok (char_signed env) (m_params msg)"
    by (auto simp: wf_message_def)
  let ?line = "prefix_text (m_prefix msg) @ command_line (m_command msg) (m_params msg)"
  have wire: "wire_text msg = tags_text (m_tags msg) @ ?line"
    by (simp add: wire_text_def command_line_def)
  have rebuild: "empty_message\<lparr>m_tags := m_tags msg, m_prefix := m_prefix msg,
      m_command := m_command msg, m_params := m_params msg\<rparr> = msg"
    by (simp add: empty_message_def)
  show ?thesis
  proof (cases "m_tags msg = []")
    case True
    then have "empty_message\<lparr>m_prefix := m_prefix msg, m_command := m_command msg,
        m_params := m_params msg\<rparr> = msg"
      by (simp add: empty_message_def)
    then show ?thesis
      using True Parse_prefix [OF wf(2-4), of parseStateStart empty_message]
      by (auto simp: wire tags_text_def MessageParser_init_def empty_message_def)
  next
    case False
    have "Parse env empty_message (wire_text msg) MessageParser_init
        = Parse env (empty_message\<lparr>m_tags := m_tags msg\<rparr>) ?line
            \<lparr>m_state = parseStateAfterTags, m_buffer = []\<rparr>"
      using False Parse_tags [OF assms(1) False, of empty_message ?line] wf(1) assms(3)
      by (simp add: wire tags_text_def MessageParser_init_def Consume_def consume_Start_def
          empty_message_def)
    then show ?thesis
      using Parse_prefix [OF wf(2-4), of parseStateAfterTags "empty_message\<lparr>m_tags := m_tags msg\<rparr>"]
        rebuild
      by (auto simp: empty_message_def)
  qed
qed

end
