(* ===== verification/Prefix_Grammar.thy ===== *)
theory Prefix_Grammar
  imports Message_Parser
begin

text \<open>
  The language the prefix validator accepts. \<open>IsValidHostname\<close> and \<open>IsValidPrefix\<close> are
  scanning loops; here each is shown equal to a declarative description: dot-separated
  labels, and \<open>nick [[!user]@host]\<close> with the corner cases the code really has.
\<close>

section \<open>Host names\<close>

definition label_char :: "char \<Rightarrow> bool" where
  "label_char c \<longleftrightarrow> IsLetter c \<or> IsDigit c \<or> c = CHR ''-''"

definition valid_label :: "string \<Rightarrow> bool" where
  "valid_label l \<longleftrightarrow> l \<noteq> [] \<and> hd l \<noteq> CHR ''-'' \<and> list_all label_char l"

definition hostname_spec :: "string \<Rightarrow> bool" where
  "hostname_spec s \<longleftrightarrow> list_all valid_label (split_on (CHR ''.'') s)"

lemma label_char_not_delim [simp]:
  "\<not> label_char (CHR ''.'')" "\<not> label_char (CHR ''!'')" "\<not> label_char (CHR ''@'')"
  "label_char (CHR ''-'')" "\<not> IsLetter (CHR ''-'')" "\<not> IsDigit (CHR ''-'')" "\<not> IsLetter (CHR ''.'')" "\<not> IsDigit (CHR ''.'')"
  by (auto simp: label_char_def char_class byte_simps)

text \<open>The flag \<open>shortnameStart\<close> tells whether the current label is still empty.\<close>

lemma IsValidHostname_loop_spec:
  "IsValidHostname_loop True s = hostname_spec s"
  "IsValidHostname_loop False s =
     (case split_on (CHR ''.'') s of p # ps \<Rightarrow> list_all label_char p \<and> list_all valid_label ps)"
proof (induction s)
  case Nil
  show "IsValidHostname_loop True [] = hostname_spec []"
    by (simp add: hostname_spec_def valid_label_def)
  show "IsValidHostname_loop False [] =
      (case split_on (CHR ''.'') [] of p # ps \<Rightarrow> list_all label_char p \<and> list_all valid_label ps)"
    by simp
next
  case (Cons c s)
  obtain p ps where sp: "split_on (CHR ''.'') s = p # ps"
    by (cases "split_on (CHR ''.'') s") auto
  show "IsValidHostname_loop True (c # s) = hostname_spec (c # s)"
    using Cons.IH sp
    by (auto simp: hostname_spec_def valid_label_def label_char_def [of c])
  show "IsValidHostname_loop False (c # s) =
      (case split_on (CHR ''.'') (c # s) of p # ps \<Rightarrow> list_all label_char p \<and> list_all valid_label ps)"
    using Cons.IH sp
    by (auto simp: hostname_spec_def label_char_def [of c])
qed

lemma IsValidHostname_eq: "IsValidHostname s = hostname_spec s"
  by (simp add: IsValidHostname_def IsValidHostname_loop_spec(1)) (simp add: hostname_spec_def valid_label_def)

section \<open>Nickname, user and host\<close>

definition nick_first :: "char \<Rightarrow> bool" where
  "nick_first c \<longleftrightarrow> IsLetter c \<or> IsSpecial c"

definition nick_char :: "char \<Rightarrow> bool" where
  "nick_char c \<longleftrightarrow> nick_first c \<or> IsDigit c \<or> c = CHR ''-''"

definition nick_shape :: "string \<Rightarrow> bool" where
  "nick_shape n \<longleftrightarrow> n \<noteq> [] \<and> nick_first (hd n) \<and> list_all nick_char n"

definition nick_ok :: "string \<Rightarrow> bool" where
  "nick_ok n \<longleftrightarrow> nick_shape n \<and> length n \<le> 9"

definition host_char :: "char \<Rightarrow> bool" where
  "host_char c \<longleftrightarrow> IsLetter c \<or> IsHex c \<or> c = CHR ''.'' \<or> c = CHR '':'' \<or> c = CHR ''-''"

definition host_ok :: "parser_env \<Rightarrow> string \<Rightarrow> bool" where
  "host_ok env h \<longleftrightarrow> h \<noteq> [] \<and> list_all host_char h \<and> (IsValidHostname h \<or> IsInternetAddress env h)"

lemma nick_delims [simp]:
  "\<not> nick_char (CHR ''!'')" "\<not> nick_char (CHR ''@'')" "\<not> IsUserChar (CHR ''@'')"
  by (auto simp: nick_char_def nick_first_def char_class byte_simps)

lemma scan_host:
  "vs_state v = vsHost \<Longrightarrow> prefix_scan_loop s v =
     (if list_all host_char s then Some (v\<lparr>hostLen := hostLen v + length s\<rparr>) else None)"
  by (induction s arbitrary: v) (auto simp: prefix_scan_step_def host_char_def)

lemma scan_user_run:
  "vs_state v = vsUser \<Longrightarrow> list_all IsUserChar u \<Longrightarrow>
     prefix_scan_loop (u @ s) v = prefix_scan_loop s (v\<lparr>userLen := userLen v + length u\<rparr>)"
  by (induction u arbitrary: v) (auto simp: prefix_scan_step_def)

lemma scan_user_stop:
  "vs_state v = vsUser \<Longrightarrow> \<not> IsUserChar c \<Longrightarrow>
     prefix_scan_step c s v =
       (if c = CHR ''@'' then Some (v\<lparr>hostStart := s, vs_state := vsHost\<rparr>) else None)"
  by (simp add: prefix_scan_step_def)

lemma scan_nick_run:
  "vs_state v = vsNickname \<Longrightarrow> list_all nick_char n \<Longrightarrow> 0 < nickLen v \<Longrightarrow>
     prefix_scan_loop (n @ s) v = prefix_scan_loop s (v\<lparr>nickLen := nickLen v + length n\<rparr>)"
  by (induction n arbitrary: v) (auto simp: prefix_scan_step_def nick_char_def nick_first_def)

lemma scan_nick_stop:
  "vs_state v = vsNickname \<Longrightarrow> \<not> nick_char c \<Longrightarrow>
     prefix_scan_step c s v =
       (if c = CHR ''!'' then Some (v\<lparr>userStart := s, vs_state := vsUser\<rparr>)
        else if c = CHR ''@'' then Some (v\<lparr>hostStart := s, vs_state := vsHost\<rparr>)
        else None)"
  by (simp add: prefix_scan_step_def nick_char_def nick_first_def)

text \<open>The state after a nickname of the right shape.\<close>

abbreviation after_nick :: "nat \<Rightarrow> prefix_scan" where
  "after_nick n \<equiv> prefix_scan_init\<lparr>nickLen := n\<rparr>"

lemma vs_init [simp]: "vs_state prefix_scan_init = vsNickname" "nickLen prefix_scan_init = 0"
  "userLen prefix_scan_init = 0" "userStart prefix_scan_init = []" "hostStart prefix_scan_init = []"
  by (simp_all add: prefix_scan_init_def)

lemma scan_nick:
  assumes "nick_shape n"
  shows "prefix_scan_loop (n @ s) prefix_scan_init = prefix_scan_loop s (after_nick (length n))"
proof -
  from assms obtain c cs where n: "n = c # cs" "nick_first c" "list_all nick_char cs"
    by (cases n) (auto simp: nick_shape_def)
  then show ?thesis
    using scan_nick_run [of "after_nick 1" cs s] by (simp add: prefix_scan_step_def nick_first_def)
qed

lemma scan_bad_first:
  "nick_char c \<Longrightarrow> \<not> nick_first c \<Longrightarrow> prefix_scan_loop (c # s) prefix_scan_init = None"
  by (simp add: prefix_scan_step_def nick_char_def nick_first_def)

section \<open>Verdicts\<close>

definition scan_accepts :: "parser_env \<Rightarrow> string \<Rightarrow> bool" where
  "scan_accepts env s =
     (case prefix_scan_loop s prefix_scan_init of
        None \<Rightarrow> False | Some v \<Rightarrow> prefix_scan_verdict env v)"

definition nick_tail_ok :: "parser_env \<Rightarrow> string \<Rightarrow> bool" where
  "nick_tail_ok env t \<longleftrightarrow>
     t = [] \<or> t = ''!'' \<or> t = ''@''
     \<or> (\<exists>host. t = CHR ''@'' # host \<and> host_ok env host)
     \<or> (\<exists>user host. t = CHR ''!'' # user @ CHR ''@'' # host
          \<and> user \<noteq> [] \<and> list_all IsUserChar user \<and> host_ok env host)"

text \<open>The run from the end of the nickname on, tail by tail.\<close>

definition tail_accepts :: "parser_env \<Rightarrow> nat \<Rightarrow> string \<Rightarrow> bool" where
  "tail_accepts env n t =
     (case prefix_scan_loop t (after_nick n) of
        None \<Rightarrow> False | Some v \<Rightarrow> prefix_scan_verdict env v)"

lemma tail_end: "1 \<le> n \<Longrightarrow> n \<le> 9 \<Longrightarrow> tail_accepts env n []"
  by (simp add: tail_accepts_def prefix_scan_verdict_def)

lemma tail_host:
  "1 \<le> n \<Longrightarrow> n \<le> 9 \<Longrightarrow> tail_accepts env n (CHR ''@'' # h) = (h = [] \<or> host_ok env h)"
  by (auto simp: tail_accepts_def scan_nick_stop scan_host prefix_scan_verdict_def host_ok_def)

lemma tail_user:
  assumes "1 \<le> n" and "n \<le> 9"
  shows "tail_accepts env n (CHR ''!'' # r) =
    (r = [] \<or> (\<exists>user host. r = user @ CHR ''@'' # host \<and> user \<noteq> [] \<and> list_all IsUserChar user
                 \<and> host_ok env host))"
proof -
  define u where "u = takeWhile IsUserChar r"
  define t where "t = dropWhile IsUserChar r"
  have r: "r = u @ t" and u: "list_all IsUserChar u"
    unfolding u_def t_def by (simp_all add: list_all_iff) (auto dest: set_takeWhileD)
  have run: "prefix_scan_loop (CHR ''!'' # r) (after_nick n)
      = prefix_scan_loop t ((after_nick n)\<lparr>userStart := r, vs_state := vsUser, userLen := length u\<rparr>)"
    using u by (simp add: scan_nick_stop r scan_user_run)
  have unique: "user = u \<and> CHR ''@'' # host = t"
    if "r = user @ CHR ''@'' # host" "list_all IsUserChar user" for user host
    using that unfolding u_def t_def list_all_iff
    by (simp add: takeWhile_append2 takeWhile_append1 dropWhile_append2)
  show ?thesis
  proof (cases t)
    case Nil
    with run r have "tail_accepts env n (CHR ''!'' # r) = (r = [])"
      using assms by (simp add: tail_accepts_def prefix_scan_verdict_def)
    with unique Nil show ?thesis by auto
  next
    case (Cons c h)
    then have c: "\<not> IsUserChar c" unfolding t_def by (metis hd_dropWhile list.discI list.sel(1))
    have "tail_accepts env n (CHR ''!'' # r) = (c = CHR ''@'' \<and> u \<noteq> [] \<and> host_ok env h)"
      using run assms r Cons
      by (auto simp: tail_accepts_def scan_user_stop [OF _ c] scan_host prefix_scan_verdict_def
          host_ok_def)
    also have "\<dots> = (\<exists>user host. r = user @ CHR ''@'' # host \<and> user \<noteq> [] \<and> list_all IsUserChar user
                 \<and> host_ok env host)"
      using unique u r Cons by (metis list.inject)
    finally show ?thesis using r Cons by simp
  qed
qed

lemma tail_accepts_iff:
  assumes "1 \<le> n" and "n \<le> 9" and "t \<noteq> [] \<Longrightarrow> \<not> nick_char (hd t)"
  shows "tail_accepts env n t = nick_tail_ok env t"
proof (cases t)
  case Nil
  with assms show ?thesis by (simp add: tail_end nick_tail_ok_def)
next
  case (Cons c r)
  consider "c = CHR ''!''" | "c = CHR ''@''" | "c \<noteq> CHR ''!''" "c \<noteq> CHR ''@''" by blast
  then show ?thesis
  proof cases
    case 1
    then show ?thesis using Cons tail_user [OF assms(1,2)] by (auto simp: nick_tail_ok_def)
  next
    case 2
    then show ?thesis using Cons tail_host [OF assms(1,2)] by (auto simp: nick_tail_ok_def)
  next
    case 3
    then show ?thesis using Cons assms(3)
      by (auto simp: tail_accepts_def scan_nick_stop nick_tail_ok_def)
  qed
qed

text \<open>A scan keeps the nickname length it has once the nickname is over.\<close>

lemma scan_keeps_nickLen:
  "vs_state v \<noteq> vsNickname \<Longrightarrow> prefix_scan_loop s v = Some v' \<Longrightarrow> nickLen v' = nickLen v"
proof (induction s arbitrary: v)
  case Nil
  then show ?case by simp
next
  case (Cons c s)
  then obtain v1 where v1: "prefix_scan_step c s v = Some v1" "prefix_scan_loop s v1 = Some v'"
    by (auto split: option.splits)
  with Cons.prems have "vs_state v1 \<noteq> vsNickname \<and> nickLen v1 = nickLen v"
    by (auto simp: prefix_scan_step_def split: prefix_state.splits if_splits)
  with v1 Cons.IH show ?case by auto
qed

lemma tail_bad_length:
  assumes "n < 1 \<or> 9 < n" and "t \<noteq> [] \<Longrightarrow> \<not> nick_char (hd t)"
  shows "\<not> tail_accepts env n t"
proof -
  have "nickLen v' = n" if "prefix_scan_loop t (after_nick n) = Some v'" for v'
    using that assms(2)
    by (cases t) (fastforce simp: scan_nick_stop split: if_splits dest: scan_keeps_nickLen [rotated])+
  with assms(1) show ?thesis
    by (auto simp: tail_accepts_def prefix_scan_verdict_def split: option.splits)
qed

lemma scan_accepts_iff:
  "scan_accepts env s = (\<exists>nick tail. s = nick @ tail \<and> nick_ok nick \<and> nick_tail_ok env tail)"
proof -
  define n where "n = takeWhile nick_char s"
  define t where "t = dropWhile nick_char s"
  have s: "s = n @ t" and n: "list_all nick_char n"
    unfolding n_def t_def by (simp_all add: list_all_iff) (auto dest: set_takeWhileD)
  have t: "t \<noteq> [] \<Longrightarrow> \<not> nick_char (hd t)" unfolding t_def by (rule hd_dropWhile)
  have unique: "nick = n \<and> tail = t" if "s = nick @ tail" "nick_ok nick" "nick_tail_ok env tail"
    for nick tail
  proof -
    have "\<not> nick_char (hd tail)" if "tail \<noteq> []" using that \<open>nick_tail_ok env tail\<close>
      by (auto simp: nick_tail_ok_def)
    moreover have "list_all nick_char nick" using \<open>nick_ok nick\<close>
      by (simp add: nick_ok_def nick_shape_def)
    ultimately show ?thesis using \<open>s = nick @ tail\<close> unfolding n_def t_def
      by (cases tail) (auto simp: list_all_iff takeWhile_append dropWhile_append
          takeWhile_eq_all_conv [THEN iffD2] dropWhile_eq_Nil_conv [THEN iffD2])
  qed
  have shape: "scan_accepts env s = tail_accepts env (length n) t" if "nick_shape n"
    using scan_nick [OF that, of t] s by (simp add: scan_accepts_def tail_accepts_def)
  have "scan_accepts env s = (nick_ok n \<and> nick_tail_ok env t)"
  proof (cases n)
    case Nil
    then have "scan_accepts env s = tail_accepts env 0 t"
      using s by (simp add: scan_accepts_def tail_accepts_def prefix_scan_init_def)
    with Nil t tail_bad_length [of 0 t] show ?thesis by (auto simp: nick_ok_def nick_shape_def)
  next
    case (Cons c cs)
    show ?thesis
    proof (cases "nick_first c")
      case True
      with Cons n have "nick_shape n" by (simp add: nick_shape_def)
      with shape tail_accepts_iff [of "length n" t env] tail_bad_length [of "length n" t] t Cons
      show ?thesis by (cases "length n \<le> 9") (auto simp: nick_ok_def)
    next
      case False
      with Cons n s scan_bad_first [of c "cs @ t"] show ?thesis
        by (auto simp: scan_accepts_def nick_ok_def nick_shape_def)
    qed
  qed
  with unique s show ?thesis by blast
qed

lemma IsValidPrefix_eq:
  "IsValidPrefix env s =
     (hostname_spec s \<or> (\<exists>nick tail. s = nick @ tail \<and> nick_ok nick \<and> nick_tail_ok env tail))"
  by (simp add: IsValidPrefix_def IsValidHostname_eq scan_accepts_iff [symmetric] scan_accepts_def)

end
