(* ===== verification/Protocol_Properties.thy ===== *)
theory Protocol_Properties
  imports Wire_Roundtrip Prefix_Grammar
begin

text \<open>
  What the message types, the parser and the serializer promise to the rest of the server,
  each statement over the operations as the code has them.
\<close>

section \<open>An environment for examples\<close>

definition sample_env :: parser_env where
  "sample_env = \<lparr>char_signed = True, make_address = (\<lambda>s. s = ''127.0.0.1''),
     str_split_max = split_max, moved_from = (\<lambda>_. [])\<rparr>"

lemma sample_env_split [simp]: "str_split (str_split_max sample_env)"
  by (simp add: sample_env_def abseil.str_split_axioms)

definition sample_message :: Message where
  "sample_message = \<lparr>m_prefix = ''bob!b@host'', m_command = ''PRIVMSG'',
     m_params = [''#c'', ''hi there''], m_tags = [(''id'', ''7''), (''x'', '''')]\<rparr>"

lemma sample_message_wf: "wf_message sample_env sample_message" "tags_printable (m_tags sample_message)"
  by code_simp+

section \<open>Writing and reading messages\<close>

text \<open>
  C1. A well-formed message in which only the last tag may lack a value, written with
  \<open>WriteToBuffer\<close> into a buffer of at least the size \<open>ComputeRequiredSpace\<close> gives,
  occupies exactly that many bytes, and parsing those bytes gives the message back and
  consumes them all.
\<close>

theorem write_then_parse:
  assumes "str_split (str_split_max env)" and "wf_message env msg" and "tags_printable (m_tags msg)"
    and "ComputeRequiredSpace msg \<le> length buf"
  shows "\<exists>n buf' p'. WriteToBuffer buf msg = Some (n, buf') \<and> n = ComputeRequiredSpace msg
    \<and> Parse env empty_message (take n buf') MessageParser_init = (Complete, [], p', msg)"
  using Parse_wire_text [OF assms(1-3)] assms(4)
  by (simp add: WriteToBuffer_eq ComputeRequiredSpace_eq)

theorem write_then_parse_witness:
  "\<exists>n buf' p'. WriteToBuffer (replicate 64 NUL) sample_message = Some (n, buf') \<and> n = 42
    \<and> Parse sample_env empty_message (take n buf') MessageParser_init = (Complete, [], p', sample_message)"
proof -
  have "ComputeRequiredSpace sample_message = 42" by code_simp
  with write_then_parse [OF sample_env_split sample_message_wf, of "replicate 64 NUL"]
  show ?thesis by simp
qed

text \<open>
  The serializer never writes past the buffer exactly when the measured size fits;
  then the buffer holds the message followed by its old contents.
\<close>

theorem write_fits_iff_measured:
  "(WriteToBuffer buf msg = None \<longleftrightarrow> length buf < ComputeRequiredSpace msg)
   \<and> (\<forall>n buf'. WriteToBuffer buf msg = Some (n, buf') \<longrightarrow>
        n = ComputeRequiredSpace msg \<and> length buf' = length buf \<and> drop n buf' = drop n buf)"
  by (auto simp: WriteToBuffer_eq ComputeRequiredSpace_eq)

theorem write_fits_iff_measured_witness:
  "WriteToBuffer ''12345678'' (empty_message\<lparr>m_command := ''QUIT''\<rparr>) = Some (6, ''QUIT'' @ [CR, LF] @ ''78'')
   \<and> drop 6 (''QUIT'' @ [CR, LF] @ ''78'') = ''78''"
proof -
  have "WriteToBuffer ''12345678'' (empty_message\<lparr>m_command := ''QUIT''\<rparr>)
      = Some (6, ''QUIT'' @ [CR, LF] @ ''78'')"
    by code_simp
  with write_fits_iff_measured [of "''12345678''" "empty_message\<lparr>m_command := ''QUIT''\<rparr>"]
  show ?thesis by auto
qed

text \<open>
  C10. Every message the parser completes is well formed: distinct tag keys over the key
  alphabet, values without separators, a prefix that is absent or valid, a command of
  letters or of three digits, and parameters that the wire format can carry.
\<close>

theorem completed_messages_wf:
  assumes "str_split (str_split_max env)"
    and "Parse env empty_message bytes MessageParser_init = (Complete, rest, p, msg)"
  shows "wf_message env msg \<and> tags_unique msg \<and> (\<exists>used. bytes = used @ rest \<and> used \<noteq> [])"
proof -
  have wf: "wf_message env msg" by (rule Parse_Complete_wf [OF assms(1) parser_inv_init assms(2)])
  moreover have "tags_unique msg" using wf by (simp add: wf_message_def tags_ok_def tags_unique_def)
  moreover have "\<exists>used. bytes = used @ rest \<and> used \<noteq> []"
    using assms(2) Parse_suffix by (cases bytes) fastforce+
  ultimately show ?thesis by blast
qed

theorem completed_messages_wf_witness:
  "\<exists>p msg. Parse sample_env empty_message (''@k=v NICK bob'' @ [CR, LF] @ ''rest'') MessageParser_init
      = (Complete, ''rest'', p, msg) \<and> m_params msg = [''bob''] \<and> wf_message sample_env msg"
proof -
  let ?in = "''@k=v NICK bob'' @ [CR, LF] @ ''rest''"
  let ?msg = "\<lparr>m_prefix = [], m_command = ''NICK'', m_params = [''bob''], m_tags = [(''k'', ''v'')]\<rparr>"
  have r: "Parse sample_env empty_message ?in MessageParser_init
      = (Complete, ''rest'', \<lparr>m_state = parseStateComplete, m_buffer = []\<rparr>, ?msg)"
    by code_simp
  from completed_messages_wf [OF sample_env_split r] r show ?thesis by fastforce
qed

text \<open>
  Reading is independent of how the bytes are cut: parsing two pieces one after the
  other is parsing their concatenation, whatever the state of the parser.
\<close>

theorem parse_in_pieces:
  "Parse env msg (xs @ ys) p =
     (case Parse env msg xs p of
        (Incomplete, rest, p', msg') \<Rightarrow> Parse env msg' ys p'
      | (st, rest, p', msg') \<Rightarrow> (st, rest @ ys, p', msg'))"
  by (rule Parse_append)

text \<open>
  A message that was read can be written and read again: serializing a completed
  message whose tags but the last have values, and parsing the result, gives the same
  message, although the bytes may differ from those first read.
\<close>

theorem reserialize_parsed:
  assumes "str_split (str_split_max env)"
    and "Parse env empty_message bytes MessageParser_init = (Complete, rest, p, msg)"
    and "tags_printable (m_tags msg)"
  shows "\<exists>p'. Parse env empty_message (wire_text msg) MessageParser_init = (Complete, [], p', msg)"
  using Parse_wire_text [OF assms(1) Parse_Complete_wf [OF assms(1) parser_inv_init assms(2)] assms(3)] .

theorem reserialize_parsed_witness:
  "\<exists>p p' msg. Parse sample_env empty_message (''PING   a    :b'' @ [CR, LF]) MessageParser_init
       = (Complete, [], p, msg)
     \<and> wire_text msg = ''PING a b'' @ [CR, LF]
     \<and> Parse sample_env empty_message (wire_text msg) MessageParser_init = (Complete, [], p', msg)"
proof -
  let ?msg = "\<lparr>m_prefix = [], m_command = ''PING'', m_params = [''a'', ''b''], m_tags = []\<rparr>"
  have r: "Parse sample_env empty_message (''PING   a    :b'' @ [CR, LF]) MessageParser_init
      = (Complete, [], \<lparr>m_state = parseStateComplete, m_buffer = []\<rparr>, ?msg)"
    by code_simp
  have w: "wire_text ?msg = ''PING a b'' @ [CR, LF]" by code_simp
  have t: "tags_printable (m_tags ?msg)" by (simp add: tags_printable_def)
  from reserialize_parsed [OF sample_env_split r t] r w show ?thesis by blast
qed

text \<open>
  When input is rejected, the parser and the message are left as they were before the
  rejected byte, which is consumed: the bytes before it alone would have been incomplete
  input leading to the same state.
\<close>

theorem rejection_keeps_state:
  assumes "Parse env msg bytes p = (Invalid, rest, p', msg')"
  shows "\<exists>before c. bytes = before @ c # rest
    \<and> Parse env msg before p = (Incomplete, [], p', msg')
    \<and> Consume env msg' c p' = (Invalid, p', msg')"
  using assms
proof (induction bytes arbitrary: msg p)
  case (Cons c bytes)
  obtain st p1 msg1 where step: "Consume env msg c p = (st, p1, msg1)" by (metis prod_cases3)
  show ?case
  proof (cases st)
    case Incomplete
    with Cons step obtain before d where "bytes = before @ d # rest"
      "Parse env msg1 before p1 = (Incomplete, [], p', msg')" "Consume env msg' d p' = (Invalid, p', msg')"
      by force
    with step Incomplete show ?thesis by (intro exI [of _ "c # before"] exI [of _ d]) simp
  next
    case Invalid
    with Cons.prems step Consume_Invalid_frame [of env msg c p p1 msg1] show ?thesis
      by (intro exI [of _ "[]"] exI [of _ c]) auto
  qed (use Cons.prems step in simp)
qed simp

theorem rejection_keeps_state_witness:
  "\<exists>before c p' msg'. ''NICK*xy'' = before @ c # ''xy''
     \<and> Parse sample_env empty_message ''NICK*xy'' MessageParser_init = (Invalid, ''xy'', p', msg')
     \<and> Consume sample_env msg' c p' = (Invalid, p', msg')"
proof -
  have r: "Parse sample_env empty_message ''NICK*xy'' MessageParser_init
      = (Invalid, ''xy'', \<lparr>m_state = parseStateCommandName, m_buffer = ''NICK''\<rparr>, empty_message)"
    by code_simp
  from rejection_keeps_state [OF r] r show ?thesis by blast
qed

section \<open>Prefixes\<close>

text \<open>
  C13. The prefix validator accepts exactly a host name, or a nickname of at most nine
  characters followed by nothing, by a lone \<open>!\<close> or \<open>@\<close>, or by \<open>@host\<close> or \<open>!user@host\<close>
  with a non-empty user and a host that is a host name or an address; a host name is a
  dot-separated sequence of non-empty labels that do not begin with a hyphen.
\<close>

theorem valid_prefix_grammar:
  "IsValidPrefix env s \<longleftrightarrow>
     list_all valid_label (split_on (CHR ''.'') s)
     \<or> (\<exists>nick tail. s = nick @ tail \<and> nick_ok nick \<and> nick_tail_ok env tail)"
  by (simp add: IsValidPrefix_eq hostname_spec_def)

section \<open>Tags\<close>

text \<open>
  The two overloads of \<open>AddTag\<close> disagree on a key that is present: adding by
  reference replaces the value, adding by move keeps the old one; both keep the keys
  distinct and add a new key at the end.
\<close>

theorem AddTag_overloads:
  "map_of (m_tags (AddTag k v msg)) k = Some v
   \<and> map_of (m_tags (AddTag_rvalue k v msg)) k =
       (case map_of (m_tags msg) k of None \<Rightarrow> Some v | Some w \<Rightarrow> Some w)
   \<and> map fst (m_tags (AddTag k v msg)) = map fst (m_tags (AddTag_rvalue k v msg))
   \<and> map fst (m_tags (AddTag k v msg))
       = (if k \<in> set (map fst (m_tags msg)) then map fst (m_tags msg) else map fst (m_tags msg) @ [k])"
proof -
  have "map fst (lhm_emplace k v m)
      = (if k \<in> set (map fst m) then map fst m else map fst m @ [k])" for m :: "(string \<times> string) list"
  proof (cases "map_of m k")
    case None
    then have "k \<notin> fst ` set m" by (simp add: map_of_eq_None_iff)
    with None show ?thesis by (simp add: lhm_emplace_def)
  next
    case (Some w)
    then have "k \<in> fst ` set m" by (force dest: map_of_SomeD)
    with Some show ?thesis by (simp add: lhm_emplace_def)
  qed
  then show ?thesis
    by (auto simp: message_ops lhm_assign_def AList.update_keys map_of_lhm_emplace
        AList.update_conv' split: option.split)
qed

text \<open>
  A tag value is cut at its first equals sign: reading a tag whose value contains
  \<open>=\<close> stores only what precedes it.
\<close>

theorem tag_value_cut_at_equals:
  assumes "str_split (str_split_max env)" and "key_ok k" and "list_all raw_value_char v"
  shows "Parse env msg (CHR ''@'' # k @ CHR ''='' # v @ SP # rest) MessageParser_init
    = Parse env (AddTag k (takeWhile (\<lambda>c. c \<noteq> CHR ''='') v) msg) rest
        \<lparr>m_state = parseStateAfterTags, m_buffer = []\<rparr>"
proof -
  have "Parse env msg (CHR ''@'' # k @ CHR ''='' # v @ SP # rest) MessageParser_init
      = Parse env msg (v @ SP # rest) \<lparr>m_state = parseStateTagValue, m_buffer = k @ ''=''\<rparr>"
    using assms(2) by (simp add: key_ok_def MessageParser_init_def buffer_TagKey Consume_def
        consume_Start_def consume_TagKey_def)
  also have "\<dots> = Parse env msg (SP # rest) \<lparr>m_state = parseStateTagValue, m_buffer = k @ CHR ''='' # v\<rparr>"
    using assms(3) by (simp add: buffer_TagValue)
  finally show ?thesis
    using add_split_tag_eq [OF assms(1,2), of v msg] by (simp add: Consume_def consume_TagValue_def)
qed

theorem tag_value_cut_at_equals_witness:
  "Parse sample_env empty_message ''@k=a=b NICK'' MessageParser_init
     = Parse sample_env (AddTag ''k'' ''a'' empty_message) ''NICK''
         \<lparr>m_state = parseStateAfterTags, m_buffer = []\<rparr>"
proof -
  have "key_ok ''k''" "list_all raw_value_char ''a=b''" by code_simp+
  from tag_value_cut_at_equals [OF sample_env_split this, of empty_message "''NICK''"]
  show ?thesis by simp
qed

lemma not_semicolon: "\<not> IsTagKeyChar (CHR '';'')"
  by (auto simp: char_class byte_simps)



section \<open>Parameters\<close>

text \<open>
  Whether a byte above 127 can start or continue a parameter depends on the
  signedness of \<open>char\<close>: where it is unsigned the byte begins a parameter, where it is
  signed it is dropped without a trace at the start of a parameter and rejected inside one.
\<close>

theorem high_bytes_in_params:
  assumes "127 < (of_char c :: nat)"
  shows "Consume env msg c \<lparr>m_state = parseStateParamStart, m_buffer = b\<rparr> =
      (Incomplete,
       if char_signed env then \<lparr>m_state = parseStateParamStart, m_buffer = b\<rparr>
       else \<lparr>m_state = parseStateParam, m_buffer = b @ [c]\<rparr>, msg)
    \<and> Consume env msg c \<lparr>m_state = parseStateParam, m_buffer = b\<rparr> =
      (if char_signed env then (Invalid, \<lparr>m_state = parseStateParam, m_buffer = b\<rparr>, msg)
       else (Incomplete, \<lparr>m_state = parseStateParam, m_buffer = b @ [c]\<rparr>, msg))"
proof -
  define n where "n = (of_char c :: nat)"
  have "(of_char c :: int) = int n" by (simp add: n_def of_nat_of_char)
  then have start: "IsParamStartChar sg c \<longleftrightarrow> \<not> sg" for sg
    using assms of_char_nat_bound [of c]
    by (auto simp: IsParamStartChar_def char_to_int_def Let_def n_def [symmetric])
  have "c \<notin> {NUL, SP, CR, LF, CHR '':''}" using assms by auto
  then show ?thesis
    by (auto simp: Consume_def consume_ParamStart_def consume_Param_def start)
qed

theorem high_bytes_in_params_witness:
  "Consume sample_env empty_message (CHR 0xE9) \<lparr>m_state = parseStateParamStart, m_buffer = []\<rparr>
     = (Incomplete, \<lparr>m_state = parseStateParamStart, m_buffer = []\<rparr>, empty_message)"
  using high_bytes_in_params [of "CHR 0xE9" sample_env empty_message "[]"]
  by (simp add: sample_env_def)

end
