(* ===== verification/Observable_Subject.thy ===== *)
theory Observable_Subject
  imports Birch_Prelude
begin

text \<open>
  The observer list of \<open>util/Observable.h\<close>. The source keeps weak pointers; here an
  observer is a name, and the argument \<open>alive\<close> tells which names still refer to an
  object, that is whether \<open>weak_ptr::lock\<close> succeeds at that moment. Each operation
  holds the mutex for its whole body except the callbacks of \<open>Notify\<close>, so it is one
  step. Callbacks act on a state \<open>'w\<close> outside the list.
\<close>

section \<open>Operations\<close>

record 'o Observable =
  m_observers :: "'o list"

definition Observable_init :: "'o Observable" where
  "Observable_init = \<lparr>m_observers = []\<rparr>"

definition EraseDeallocated :: "('o \<Rightarrow> bool) \<Rightarrow> 'o Observable \<Rightarrow> 'o Observable" where
  "EraseDeallocated alive s = s\<lparr>m_observers := filter (\<lambda>ptr. \<not> (\<not> alive ptr)) (m_observers s)\<rparr>"

definition AddObserver :: "('o \<Rightarrow> bool) \<Rightarrow> 'o \<Rightarrow> 'o Observable \<Rightarrow> 'o Observable" where
  "AddObserver alive observer s =
     EraseDeallocated alive (s\<lparr>m_observers := m_observers s @ [observer]\<rparr>)"

definition RemoveObserver :: "('o \<Rightarrow> bool) \<Rightarrow> 'o \<Rightarrow> 'o Observable \<Rightarrow> 'o Observable" where
  "RemoveObserver alive observer s =
     s\<lparr>m_observers := filter (\<lambda>weak. \<not> (\<not> alive weak \<or> weak = observer)) (m_observers s)\<rparr>"

definition Clear :: "'o Observable \<Rightarrow> 'o Observable" where
  "Clear s = s\<lparr>m_observers := []\<rparr>"

text \<open>
  \<open>Notify\<close> collects the live observers under the lock, drops the expired ones if there
  were any, and then calls \<open>fn\<close> on each collected observer in order.
\<close>

definition Notify ::
  "('o \<Rightarrow> bool) \<Rightarrow> ('o \<Rightarrow> 'w \<Rightarrow> 'w) \<Rightarrow> 'o Observable \<Rightarrow> 'w \<Rightarrow> 'o Observable \<times> 'w" where
  "Notify alive fn s w =
     (let liveObservers = filter alive (m_observers s);
          s' = (if length liveObservers \<noteq> length (m_observers s)
                then EraseDeallocated alive s else s)
      in (s', fold fn liveObservers w))"

text \<open>The observers a notification reaches.\<close>

definition targets :: "('o \<Rightarrow> bool) \<Rightarrow> 'o Observable \<Rightarrow> 'o list" where
  "targets alive s = filter alive (m_observers s)"

lemmas observable_defs = EraseDeallocated_def AddObserver_def RemoveObserver_def Clear_def
  Notify_def targets_def Observable_init_def

section \<open>The contract\<close>

text \<open>
  What a subject promises to the classes that derive from it. Objects do not come back to
  life, so the contract relates the list built while \<open>alive\<close> held to any later
  \<open>alive'\<close> with fewer live objects.
\<close>

locale subject =
  fixes reg :: "('o \<Rightarrow> bool) \<Rightarrow> 'o \<Rightarrow> 's \<Rightarrow> 's"
    and unreg :: "('o \<Rightarrow> bool) \<Rightarrow> 'o \<Rightarrow> 's \<Rightarrow> 's"
    and publish :: "('o \<Rightarrow> bool) \<Rightarrow> ('o \<Rightarrow> 'w \<Rightarrow> 'w) \<Rightarrow> 's \<Rightarrow> 'w \<Rightarrow> 's \<times> 'w"
    and reached :: "('o \<Rightarrow> bool) \<Rightarrow> 's \<Rightarrow> 'o list"
  assumes reached_reg: "(\<And>o1. alive' o1 \<Longrightarrow> alive o1) \<Longrightarrow>
        reached alive' (reg alive o2 s) = reached alive' s @ (if alive' o2 then [o2] else [])"
    and reached_unreg: "(\<And>o1. alive' o1 \<Longrightarrow> alive o1) \<Longrightarrow>
        reached alive' (unreg alive o2 s) = filter (\<lambda>o1. o1 \<noteq> o2) (reached alive' s)"
    and reached_publish: "(\<And>o1. alive' o1 \<Longrightarrow> alive o1) \<Longrightarrow>
        reached alive' (fst (publish alive fn s w)) = reached alive' s"
    and publish_calls: "snd (publish alive fn s w) = fold fn (reached alive s) w"
    and reached_alive: "o2 \<in> set (reached alive s) \<Longrightarrow> alive o2"
begin

text \<open>Once an observer is removed, no later notification reaches it.\<close>

lemma unreg_not_reached:
  "(\<And>o1. alive' o1 \<Longrightarrow> alive o1) \<Longrightarrow> o2 \<notin> set (reached alive' (unreg alive o2 s))"
  by (simp add: reached_unreg)

text \<open>Registering and removing again leaves the others as they were.\<close>

lemma reg_unreg:
  "o2 \<notin> set (reached alive s) \<Longrightarrow> reached alive (unreg alive o2 (reg alive o2 s)) = reached alive s"
  by (auto simp: reached_reg reached_unreg filter_id_conv)

text \<open>Publishing twice calls the same observers in the same order, as long as all stay alive.\<close>

lemma publish_twice:
  "snd (publish alive gn (fst (publish alive fn s w)) (snd (publish alive fn s w)))
     = fold gn (reached alive s) (fold fn (reached alive s) w)"
  by (simp add: publish_calls reached_publish)

end

interpretation obs: subject AddObserver RemoveObserver Notify targets
proof unfold_locales
  fix alive' alive :: "'o \<Rightarrow> bool" and o2 :: 'o and s :: "'o Observable"
  assume le: "\<And>o1. alive' o1 \<Longrightarrow> alive o1"
  have filt: "filter alive' (filter (\<lambda>ptr. alive ptr) xs) = filter alive' xs" for xs
    by (induction xs) (auto dest: le)
  then show "targets alive' (AddObserver alive o2 s)
      = targets alive' s @ (if alive' o2 then [o2] else [])"
    by (auto simp: observable_defs dest: le)
  show "targets alive' (RemoveObserver alive o2 s) = filter (\<lambda>o1. o1 \<noteq> o2) (targets alive' s)"
    by (auto simp: observable_defs dest: le intro!: filter_cong)
  show "targets alive' (fst (Notify alive fn s w)) = targets alive' s"
    for fn :: "'o \<Rightarrow> 'w \<Rightarrow> 'w" and w
    using filt by (simp add: observable_defs Let_def)
qed (simp_all add: observable_defs Let_def)

lemma Notify_eq:
  "Notify alive fn s w = (s\<lparr>m_observers := targets alive s\<rparr>, fold fn (targets alive s) w)"
proof -
  have "filter alive (m_observers s) = m_observers s"
    if "length (filter alive (m_observers s)) = length (m_observers s)"
    using that by (metis filter_True length_filter_less less_irrefl)
  then show ?thesis by (cases s) (auto simp: observable_defs Let_def)
qed

end
