(* ===== verification/Asio_Connection.thy ===== *)
theory Asio_Connection
  imports Wire_Roundtrip Observable_Subject
begin

text \<open>
  One client connection: \<open>server/AsioConnection.h\<close>, \<open>server/AsioConnection.cc\<close> and
  the types of \<open>server/Connection.h\<close>. The coroutines run on the connection's strand, so
  everything between two suspension points is one step; a step takes the result of the
  operation the coroutine waited for (a read, a queue receive, a write), which the
  network and the asio library choose. Posting \<open>AddObserver\<close> to the strand and
  dispatching \<open>Close\<close> there are steps too.

  The write queue is asio's \<open>concurrent_channel\<close>: the operations the code calls on it
  are the record \<open>channel_api\<close>, an argument of the definitions. What observers are told
  is recorded in \<open>c_log\<close>, and what is handed to \<open>async_write\<close> in \<open>c_sent\<close>. A failed
  \<open>CHECK\<close> and a write outside \<open>m_writeBuffer\<close> are faults.
\<close>

section \<open>Types\<close>

datatype WriteResult = Sent | Backpressure | Closed

fun WriteResult_to_string :: "WriteResult \<Rightarrow> string" where
  "WriteResult_to_string Sent = ''Sent''"
| "WriteResult_to_string Backpressure = ''Backpressure''"
| "WriteResult_to_string Closed = ''Closed''"

type_synonym ConnId = "64 word"

text \<open>The callbacks of \<open>IConnectionObserver\<close>.\<close>

datatype conn_event =
    OnMessage ConnId Message
  | OnError ConnId status
  | OnDisconnect ConnId

record 'q channel_api =
  try_send :: "'q \<Rightarrow> Message \<Rightarrow> bool \<times> 'q"
  chan_close :: "'q \<Rightarrow> 'q"
  chan_cancel :: "'q \<Rightarrow> 'q"

datatype write_loop = WriteIdle | WriteWaiting | WriteWriting | WriteReturned

datatype read_loop = ReadIdle | ReadWaiting | ReadReturned

record ('o, 'q) AsioConnection =
  m_connId :: ConnId
  m_socket_open :: bool
  m_writeQueue :: 'q
  m_message :: Message
  m_parser :: MessageParser
  m_writeBuffer :: string
  c_observable :: "'o Observable"
  c_read :: read_loop
  c_write :: write_loop
  c_log :: "('o \<times> conn_event) list"
  c_sent :: string

datatype conn_fault = CheckFailed string | BufferOverrun

definition write_buffer_size :: nat where
  "write_buffer_size = 1024 * 12"

definition AsioConnection_new :: "ConnId \<Rightarrow> 'q \<Rightarrow> ('o, 'q) AsioConnection" where
  "AsioConnection_new connId queue =
     \<lparr>m_connId = connId, m_socket_open = True, m_writeQueue = queue,
      m_message = empty_message, m_parser = MessageParser_init,
      m_writeBuffer = replicate write_buffer_size NUL,
      c_observable = Observable_init, c_read = ReadIdle, c_write = WriteIdle,
      c_log = [], c_sent = []\<rparr>"

section \<open>Notifications\<close>

definition notify_event ::
  "('o \<Rightarrow> bool) \<Rightarrow> conn_event \<Rightarrow> ('o, 'q) AsioConnection \<Rightarrow> ('o, 'q) AsioConnection" where
  "notify_event alive ev conn =
     (case Notify alive (\<lambda>obs log. log @ [(obs, ev)]) (c_observable conn) (c_log conn) of
        (s, log) \<Rightarrow> conn\<lparr>c_observable := s, c_log := log\<rparr>)"

definition NotifyMessage ::
  "bool \<Rightarrow> ('o \<Rightarrow> bool) \<Rightarrow> Message \<Rightarrow> ('o, 'q) AsioConnection
     \<Rightarrow> conn_fault + ('o, 'q) AsioConnection" where
  "NotifyMessage on_strand alive msg conn =
     (if \<not> on_strand then Inl (CheckFailed ''NotifyMessage called on wrong thread'')
      else Inr (notify_event alive (OnMessage (m_connId conn) msg) conn))"

definition NotifyError ::
  "bool \<Rightarrow> ('o \<Rightarrow> bool) \<Rightarrow> status \<Rightarrow> ('o, 'q) AsioConnection
     \<Rightarrow> conn_fault + ('o, 'q) AsioConnection" where
  "NotifyError on_strand alive st conn =
     (if \<not> on_strand then Inl (CheckFailed ''NotifyError called on wrong thread'')
      else Inr (notify_event alive (OnError (m_connId conn) st) conn))"

definition NotifyDisconnect ::
  "bool \<Rightarrow> ('o \<Rightarrow> bool) \<Rightarrow> ('o, 'q) AsioConnection \<Rightarrow> conn_fault + ('o, 'q) AsioConnection" where
  "NotifyDisconnect on_strand alive conn =
     (if \<not> on_strand then Inl (CheckFailed ''NotifyDisconnect called on wrong thread'')
      else Inr (notify_event alive (OnDisconnect (m_connId conn)) conn))"

section \<open>Closing\<close>

text \<open>Errors of \<open>shutdown\<close> and \<open>close\<close> are only logged; the descriptor is closed either way.\<close>

definition CloseUnderLock ::
  "'q channel_api \<Rightarrow> bool \<Rightarrow> ('o \<Rightarrow> bool) \<Rightarrow> ('o, 'q) AsioConnection
     \<Rightarrow> conn_fault + ('o, 'q) AsioConnection" where
  "CloseUnderLock api on_strand alive conn =
     (if \<not> m_socket_open conn then Inr conn
      else NotifyDisconnect on_strand alive
             (conn\<lparr>m_writeQueue := chan_cancel api (chan_close api (m_writeQueue conn)),
                   m_socket_open := False\<rparr>))"

text \<open>The function \<open>Close\<close> dispatches to the strand.\<close>

definition Close ::
  "'q channel_api \<Rightarrow> ('o \<Rightarrow> bool) \<Rightarrow> ('o, 'q) AsioConnection
     \<Rightarrow> conn_fault + ('o, 'q) AsioConnection" where
  "Close api alive conn = CloseUnderLock api True alive conn"

definition AsioConnection_destroy ::
  "'q channel_api \<Rightarrow> bool \<Rightarrow> ('o \<Rightarrow> bool) \<Rightarrow> ('o, 'q) AsioConnection
     \<Rightarrow> conn_fault + ('o, 'q) AsioConnection" where
  "AsioConnection_destroy api on_strand alive conn = CloseUnderLock api on_strand alive conn"

section \<open>Observers and responses\<close>

definition OnConnected :: "('o, 'q) AsioConnection \<Rightarrow> ('o, 'q) AsioConnection" where
  "OnConnected conn = conn\<lparr>c_read := ReadWaiting, c_write := WriteWaiting\<rparr>"

text \<open>
  \<open>try_send\<close> takes the completion arguments of the channel, the pair of error code and
  message: the local \<open>ec\<close> is passed along as part of the payload and keeps its initial
  value.
\<close>

definition DeliverResponse ::
  "'q channel_api \<Rightarrow> Message \<Rightarrow> ('o, 'q) AsioConnection
     \<Rightarrow> WriteResult \<times> ('o, 'q) AsioConnection" where
  "DeliverResponse api msg conn =
     (let ec = False; (sent, queue) = try_send api (m_writeQueue conn) msg;
          conn = conn\<lparr>m_writeQueue := queue\<rparr>
      in if sent then (Sent, conn) else if ec then (Closed, conn) else (Backpressure, conn))"

definition conn_AddObserver ::
  "('o \<Rightarrow> bool) \<Rightarrow> 'o \<Rightarrow> ('o, 'q) AsioConnection \<Rightarrow> ('o, 'q) AsioConnection" where
  "conn_AddObserver alive observer conn =
     conn\<lparr>c_observable := AddObserver alive observer (c_observable conn)\<rparr>"

definition conn_RemoveObserver ::
  "('o \<Rightarrow> bool) \<Rightarrow> 'o \<Rightarrow> ('o, 'q) AsioConnection \<Rightarrow> ('o, 'q) AsioConnection" where
  "conn_RemoveObserver alive observer conn =
     conn\<lparr>c_observable := RemoveObserver alive observer (c_observable conn)\<rparr>"

section \<open>The read loop\<close>

datatype read_result = ReadEof | ReadAborted | ReadFailed | ReadSome string

text \<open>The inner loop over the bytes of one read. It stops at an invalid byte, leaving the
  parser and the partial message as they are.\<close>

function read_bytes ::
  "parser_env \<Rightarrow> ('o \<Rightarrow> bool) \<Rightarrow> string \<Rightarrow> ('o, 'q) AsioConnection
     \<Rightarrow> conn_fault + ('o, 'q) AsioConnection" where
  "read_bytes env alive [] conn = Inr conn"
| "read_bytes env alive (c # pos) conn =
     (case Parse env (m_message conn) (c # pos) (m_parser conn) of
        (st, rest, p, msg) \<Rightarrow>
          (let conn = conn\<lparr>m_parser := p, m_message := msg\<rparr> in
             case st of
               Complete \<Rightarrow>
                 (case NotifyMessage True alive msg conn of
                    Inl fault \<Rightarrow> Inl fault
                  | Inr conn \<Rightarrow>
                      read_bytes env alive rest
                        (conn\<lparr>m_message := empty_message, m_parser := Reset (m_parser conn)\<rparr>))
             | Invalid \<Rightarrow> Inr conn
             | Incomplete \<Rightarrow> Inr conn))"
  by pat_completeness auto
termination
proof (relation "measure (\<lambda>(env, alive, pos, conn). length pos)", goal_cases)
  case 1
  then show ?case by simp
next
  case (2 env alive c pos conn st rest p msg)
  then show ?case by (auto simp del: Parse.simps dest!: Parse_rest_shorter [OF sym])
qed

text \<open>One turn of \<open>RunReadLoop\<close>: what follows the completion of a read.\<close>

definition RunReadLoop_turn ::
  "parser_env \<Rightarrow> 'q channel_api \<Rightarrow> ('o \<Rightarrow> bool) \<Rightarrow> read_result \<Rightarrow> ('o, 'q) AsioConnection
     \<Rightarrow> conn_fault + ('o, 'q) AsioConnection" where
  "RunReadLoop_turn env api alive res conn =
     (case res of
        ReadSome buf \<Rightarrow> read_bytes env alive buf conn
      | _ \<Rightarrow> (case Close api alive conn of
                Inl fault \<Rightarrow> Inl fault
              | Inr conn \<Rightarrow> Inr (conn\<lparr>c_read := ReadReturned\<rparr>)))"

section \<open>The write loop\<close>

datatype receive_result = ReceiveAborted | ReceiveFailed | Received Message
datatype write_result = WriteAborted | WriteFailed | Written

text \<open>After a receive: serialize into \<open>m_writeBuffer\<close> and start the write.\<close>

definition RunWriteLoop_received ::
  "'q channel_api \<Rightarrow> ('o \<Rightarrow> bool) \<Rightarrow> receive_result \<Rightarrow> ('o, 'q) AsioConnection
     \<Rightarrow> conn_fault + ('o, 'q) AsioConnection" where
  "RunWriteLoop_received api alive res conn =
     (case res of
        Received msg \<Rightarrow>
          (case WriteToBuffer (m_writeBuffer conn) msg of
             None \<Rightarrow> Inl BufferOverrun
           | Some (cbWrite, buf) \<Rightarrow>
               Inr (conn\<lparr>m_writeBuffer := buf, c_sent := c_sent conn @ take cbWrite buf,
                         c_write := WriteWriting\<rparr>))
      | _ \<Rightarrow> (case Close api alive conn of
                Inl fault \<Rightarrow> Inl fault
              | Inr conn \<Rightarrow> Inr (conn\<lparr>c_write := WriteReturned\<rparr>)))"

definition RunWriteLoop_written ::
  "'q channel_api \<Rightarrow> ('o \<Rightarrow> bool) \<Rightarrow> write_result \<Rightarrow> ('o, 'q) AsioConnection
     \<Rightarrow> conn_fault + ('o, 'q) AsioConnection" where
  "RunWriteLoop_written api alive res conn =
     (case res of
        Written \<Rightarrow> Inr (conn\<lparr>c_write := WriteWaiting\<rparr>)
      | _ \<Rightarrow> (case Close api alive conn of
                Inl fault \<Rightarrow> Inl fault
              | Inr conn \<Rightarrow> Inr (conn\<lparr>c_write := WriteReturned\<rparr>)))"

section \<open>The connection as a state machine\<close>

text \<open>
  One rule per handler; a loop's handler runs only while the loop waits for that result.
  \<open>alive\<close> may change from step to step.
\<close>

inductive conn_step ::
  "parser_env \<Rightarrow> 'q channel_api \<Rightarrow> ('o, 'q) AsioConnection \<Rightarrow> ('o, 'q) AsioConnection \<Rightarrow> bool"
  for env :: parser_env and api :: "'q channel_api" where
  connected: "c_read conn = ReadIdle \<Longrightarrow> c_write conn = WriteIdle \<Longrightarrow>
     conn_step env api conn (OnConnected conn)"
| deliver: "DeliverResponse api msg conn = (r, conn') \<Longrightarrow> conn_step env api conn conn'"
| add_observer: "conn_step env api conn (conn_AddObserver alive observer conn)"
| remove_observer: "conn_step env api conn (conn_RemoveObserver alive observer conn)"
| read: "c_read conn = ReadWaiting \<Longrightarrow> RunReadLoop_turn env api alive res conn = Inr conn' \<Longrightarrow>
     conn_step env api conn conn'"
| receive: "c_write conn = WriteWaiting \<Longrightarrow>
     RunWriteLoop_received api alive rcv conn = Inr conn' \<Longrightarrow> conn_step env api conn conn'"
| written: "c_write conn = WriteWriting \<Longrightarrow>
     RunWriteLoop_written api alive wr conn = Inr conn' \<Longrightarrow> conn_step env api conn conn'"
| close: "Close api alive conn = Inr conn' \<Longrightarrow> conn_step env api conn conn'"

inductive conn_reachable ::
  "parser_env \<Rightarrow> 'q channel_api \<Rightarrow> ConnId \<Rightarrow> 'q \<Rightarrow> ('o, 'q) AsioConnection \<Rightarrow> bool"
  for env :: parser_env and api :: "'q channel_api" and connId :: ConnId and queue :: 'q where
  start: "conn_reachable env api connId queue (AsioConnection_new connId queue)"
| step: "conn_reachable env api connId queue conn \<Longrightarrow> conn_step env api conn conn' \<Longrightarrow>
     conn_reachable env api connId queue conn'"

lemmas conn_handler_defs = RunReadLoop_turn_def RunWriteLoop_received_def
  RunWriteLoop_written_def DeliverResponse_def conn_AddObserver_def conn_RemoveObserver_def
  OnConnected_def

lemmas conn_close_defs = Close_def CloseUnderLock_def NotifyDisconnect_def

section \<open>Notification lemmas\<close>

lemma fold_log: "fold (\<lambda>obs log. log @ [(obs, ev)]) xs log = log @ map (\<lambda>obs. (obs, ev)) xs"
  by (induction xs arbitrary: log) simp_all

lemma notify_event_eq:
  "notify_event alive ev conn =
     conn\<lparr>c_observable := (c_observable conn)\<lparr>m_observers := targets alive (c_observable conn)\<rparr>,
          c_log := c_log conn @ map (\<lambda>obs. (obs, ev)) (targets alive (c_observable conn))\<rparr>"
  by (simp add: notify_event_def Notify_eq fold_log)

lemma targets_targets [simp]:
  "targets alive (s\<lparr>m_observers := targets alive s\<rparr>) = targets alive s"
  by (simp add: targets_def)

section \<open>The byte stream of a connection\<close>

text \<open>
  What the read side does with the bytes it gets, independently of how they were cut into
  reads: the messages completed, the parser and partial message afterwards, and whether no
  byte was rejected.
\<close>

fun feed ::
  "parser_env \<Rightarrow> Message \<Rightarrow> MessageParser \<Rightarrow> string
     \<Rightarrow> Message list \<times> MessageParser \<times> Message \<times> bool" where
  "feed env msg p [] = ([], p, msg, True)"
| "feed env msg p (c # cs) =
     (case Consume env msg c p of
        (Incomplete, p', msg') \<Rightarrow> feed env msg' p' cs
      | (Complete, p', msg') \<Rightarrow>
          (case feed env empty_message MessageParser_init cs of
             (ms, p'', msg'', ok) \<Rightarrow> (msg' # ms, p'', msg'', ok))
      | (Invalid, p', msg') \<Rightarrow> ([], p', msg', False))"

lemma feed_Parse:
  "feed env msg p s =
     (case Parse env msg s p of
        (Complete, rest, p', msg') \<Rightarrow>
          (case feed env empty_message MessageParser_init rest of
             (ms, p'', msg'', ok) \<Rightarrow> (msg' # ms, p'', msg'', ok))
      | (Incomplete, rest, p', msg') \<Rightarrow> ([], p', msg', True)
      | (Invalid, rest, p', msg') \<Rightarrow> ([], p', msg', False))"
  by (induction s arbitrary: msg p) (auto split: ParseState.splits prod.splits)

lemma feed_append:
  "feed env msg p (xs @ ys) =
     (case feed env msg p xs of
        (ms, p', msg', True) \<Rightarrow>
          (case feed env msg' p' ys of (ms', p'', msg'', ok) \<Rightarrow> (ms @ ms', p'', msg'', ok))
      | (ms, p', msg', False) \<Rightarrow> (ms, p', msg', False))"
  by (induction xs arbitrary: msg p)
    (auto split: ParseState.splits prod.splits bool.splits)

text \<open>The events a list of messages causes, observer by observer.\<close>

definition message_events ::
  "ConnId \<Rightarrow> 'o list \<Rightarrow> Message list \<Rightarrow> ('o \<times> conn_event) list" where
  "message_events connId obs ms = concat (map (\<lambda>m. map (\<lambda>ob. (ob, OnMessage connId m)) obs) ms)"

definition prune_if :: "bool \<Rightarrow> ('o \<Rightarrow> bool) \<Rightarrow> 'o Observable \<Rightarrow> 'o Observable" where
  "prune_if b alive s = (if b then s\<lparr>m_observers := targets alive s\<rparr> else s)"

lemma targets_prune_if [simp]: "targets alive (prune_if b alive s) = targets alive s"
  by (simp add: prune_if_def)

lemma prune_if_twice [simp]:
  "prune_if b' alive (prune_if b alive s) = prune_if (b \<or> b') alive s"
  by (simp add: prune_if_def)

text \<open>The inner read loop refines the stream function; it never faults.\<close>

definition conn_after_feed ::
  "parser_env \<Rightarrow> ('o \<Rightarrow> bool) \<Rightarrow> string \<Rightarrow> ('o, 'q) AsioConnection \<Rightarrow> ('o, 'q) AsioConnection" where
  "conn_after_feed env alive bytes conn =
     (case feed env (m_message conn) (m_parser conn) bytes of
        (ms, p, msg, ok) \<Rightarrow>
          conn\<lparr>m_parser := p, m_message := msg,
               c_observable := prune_if (ms \<noteq> []) alive (c_observable conn),
               c_log := c_log conn
                 @ message_events (m_connId conn) (targets alive (c_observable conn)) ms\<rparr>)"

lemma read_bytes_feed: "read_bytes env alive bytes conn = Inr (conn_after_feed env alive bytes conn)"
proof (induction env alive bytes conn rule: read_bytes.induct)
  case (1 env alive conn)
  show ?case by (simp add: conn_after_feed_def message_events_def prune_if_def)
next
  case (2 env alive c pos conn)
  obtain st rest p msg where parse:
      "Parse env (m_message conn) (c # pos) (m_parser conn) = (st, rest, p, msg)"
    by (metis prod_cases4)
  show ?case
  proof (cases st)
    case Complete
    let ?conn1 = "notify_event alive (OnMessage (m_connId conn) msg) (conn\<lparr>m_parser := p, m_message := msg\<rparr>)"
    let ?conn2 = "?conn1\<lparr>m_message := empty_message, m_parser := MessageParser_init\<rparr>"
    have "read_bytes env alive (c # pos) conn = read_bytes env alive rest ?conn2"
      using parse Complete by (simp add: NotifyMessage_def Reset_eq_init del: Parse.simps)
    moreover have "read_bytes env alive rest ?conn2 = Inr (conn_after_feed env alive rest ?conn2)"
      using "2.IH" [OF parse [symmetric] refl refl refl] Complete
      by (simp add: NotifyMessage_def Reset_eq_init)
    moreover have "conn_after_feed env alive rest ?conn2 = conn_after_feed env alive (c # pos) conn"
      using parse Complete
      by (simp add: conn_after_feed_def notify_event_eq feed_Parse [of env "m_message conn" _ "c # pos"]
          message_events_def prune_if_def del: Parse.simps feed.simps split: prod.splits)
    ultimately show ?thesis by simp
  qed (use parse in \<open>simp_all add: conn_after_feed_def message_events_def prune_if_def
        feed_Parse [of env "m_message conn" _ "c # pos"] del: Parse.simps feed.simps\<close>)
qed

section \<open>Reading in pieces\<close>

text \<open>A sequence of successful reads.\<close>

fun read_chunks ::
  "parser_env \<Rightarrow> 'q channel_api \<Rightarrow> ('o \<Rightarrow> bool) \<Rightarrow> string list \<Rightarrow> ('o, 'q) AsioConnection
     \<Rightarrow> conn_fault + ('o, 'q) AsioConnection" where
  "read_chunks env api alive [] conn = Inr conn"
| "read_chunks env api alive (buf # bufs) conn =
     (case RunReadLoop_turn env api alive (ReadSome buf) conn of
        Inl fault \<Rightarrow> Inl fault
      | Inr conn' \<Rightarrow> read_chunks env api alive bufs conn')"

definition stream_ok :: "parser_env \<Rightarrow> ('o, 'q) AsioConnection \<Rightarrow> string \<Rightarrow> bool" where
  "stream_ok env conn bytes \<longleftrightarrow>
     snd (snd (snd (feed env (m_message conn) (m_parser conn) bytes)))"

lemma stream_ok_append:
  "stream_ok env conn (xs @ ys) \<Longrightarrow>
     stream_ok env conn xs \<and> stream_ok env (conn_after_feed env alive xs conn) ys"
  by (auto simp: stream_ok_def feed_append conn_after_feed_def split: prod.splits bool.splits)

lemma conn_after_feed_append:
  "stream_ok env conn xs \<Longrightarrow>
     conn_after_feed env alive ys (conn_after_feed env alive xs conn)
       = conn_after_feed env alive (xs @ ys) conn"
  by (auto simp: stream_ok_def feed_append conn_after_feed_def message_events_def
      split: prod.splits bool.splits)

lemma conn_after_feed_Nil [simp]: "conn_after_feed env alive [] conn = conn"
  by (simp add: conn_after_feed_def message_events_def prune_if_def)

lemma read_chunks_feed:
  "stream_ok env conn (concat bufs) \<Longrightarrow>
     read_chunks env api alive bufs conn = Inr (conn_after_feed env alive (concat bufs) conn)"
proof (induction bufs arbitrary: conn)
  case Nil
  then show ?case by simp
next
  case (Cons buf bufs)
  then have ok: "stream_ok env conn buf"
      "stream_ok env (conn_after_feed env alive buf conn) (concat bufs)"
    using stream_ok_append [where alive = alive] by force+
  then show ?case
    by (simp add: RunReadLoop_turn_def read_bytes_feed Cons.IH conn_after_feed_append)
qed

section \<open>Streams of serialized messages\<close>

definition sendable :: "parser_env \<Rightarrow> Message \<Rightarrow> bool" where
  "sendable env msg \<longleftrightarrow> wf_message env msg \<and> tags_printable (m_tags msg)"

definition wire_stream :: "Message list \<Rightarrow> string" where
  "wire_stream ms = concat (map wire_text ms)"

lemma feed_wire_text:
  assumes "str_split (str_split_max env)" and "sendable env msg"
  shows "feed env empty_message MessageParser_init (wire_text msg @ rest) =
    (case feed env empty_message MessageParser_init rest of
       (ms, p, m, ok) \<Rightarrow> (msg # ms, p, m, ok))"
proof -
  obtain p' where "Parse env empty_message (wire_text msg) MessageParser_init = (Complete, [], p', msg)"
    using Parse_wire_text [OF assms(1)] assms(2) by (auto simp: sendable_def)
  then show ?thesis
    by (simp add: feed_Parse [of _ _ _ "wire_text msg @ rest"] Parse_append del: feed.simps)
qed

lemma feed_wire_stream:
  assumes "str_split (str_split_max env)"
  shows "list_all (sendable env) ms \<Longrightarrow>
    feed env empty_message MessageParser_init (wire_stream ms)
      = (ms, MessageParser_init, empty_message, True)"
  by (induction ms) (simp_all add: wire_stream_def feed_wire_text [OF assms])

definition at_message_start :: "('o, 'q) AsioConnection \<Rightarrow> bool" where
  "at_message_start conn \<longleftrightarrow> m_parser conn = MessageParser_init \<and> m_message conn = empty_message"

lemma at_message_start_new [simp]: "at_message_start (AsioConnection_new connId queue)"
  by (simp add: at_message_start_def AsioConnection_new_def)

lemma read_chunks_wire_stream:
  assumes "str_split (str_split_max env)" and "list_all (sendable env) ms"
    and "at_message_start conn" and "concat bufs = wire_stream ms"
  shows "\<exists>conn'. read_chunks env api alive bufs conn = Inr conn' \<and> at_message_start conn'
    \<and> c_log conn' = c_log conn
        @ message_events (m_connId conn) (targets alive (c_observable conn)) ms"
  using read_chunks_feed [of env conn bufs api alive] feed_wire_stream [OF assms(1,2)] assms(3,4)
  by (simp add: stream_ok_def conn_after_feed_def at_message_start_def)

section \<open>The write side\<close>

fun write_all ::
  "'q channel_api \<Rightarrow> ('o \<Rightarrow> bool) \<Rightarrow> Message list \<Rightarrow> ('o, 'q) AsioConnection
     \<Rightarrow> conn_fault + ('o, 'q) AsioConnection" where
  "write_all api alive [] conn = Inr conn"
| "write_all api alive (msg # ms) conn =
     (case RunWriteLoop_received api alive (Received msg) conn of
        Inl fault \<Rightarrow> Inl fault
      | Inr conn' \<Rightarrow>
          (case RunWriteLoop_written api alive Written conn' of
             Inl fault \<Rightarrow> Inl fault
           | Inr conn'' \<Rightarrow> write_all api alive ms conn''))"

definition buffer_intact :: "('o, 'q) AsioConnection \<Rightarrow> bool" where
  "buffer_intact conn \<longleftrightarrow> length (m_writeBuffer conn) = write_buffer_size"

lemma received_eq:
  assumes "buffer_intact conn"
  shows "RunWriteLoop_received api alive (Received msg) conn =
    (if ComputeRequiredSpace msg \<le> write_buffer_size
     then Inr (conn\<lparr>m_writeBuffer := wire_text msg @ drop (length (wire_text msg)) (m_writeBuffer conn),
                    c_sent := c_sent conn @ wire_text msg, c_write := WriteWriting\<rparr>)
     else Inl BufferOverrun)"
  using assms
  by (simp add: RunWriteLoop_received_def WriteToBuffer_eq ComputeRequiredSpace_eq buffer_intact_def)

lemma write_all_sent:
  "buffer_intact conn \<Longrightarrow> list_all (\<lambda>m. ComputeRequiredSpace m \<le> write_buffer_size) ms \<Longrightarrow>
     \<exists>conn'. write_all api alive ms conn = Inr conn' \<and> c_sent conn' = c_sent conn @ wire_stream ms"
proof (induction ms arbitrary: conn)
  case Nil
  then show ?case by (simp add: wire_stream_def)
next
  case (Cons msg ms)
  let ?conn1 = "conn\<lparr>m_writeBuffer := wire_text msg @ drop (length (wire_text msg)) (m_writeBuffer conn),
      c_sent := c_sent conn @ wire_text msg, c_write := WriteWriting\<rparr>"
  let ?conn2 = "?conn1\<lparr>c_write := WriteWaiting\<rparr>"
  have "buffer_intact ?conn2"
    using Cons.prems by (simp add: buffer_intact_def ComputeRequiredSpace_eq)
  from Cons.IH [OF this] Cons.prems obtain conn' where
    "write_all api alive ms ?conn2 = Inr conn'" "c_sent conn' = c_sent ?conn2 @ wire_stream ms"
    by auto
  then show ?case using Cons.prems
    by (simp add: received_eq RunWriteLoop_written_def wire_stream_def)
qed

section \<open>Invariants of every connection\<close>

text \<open>
  What holds in every reachable state: the identity and the size of the write buffer do not
  change, the parser invariant holds (so every message reported is well formed), observers
  are never told of an error, and they are told of a disconnect only once the socket is
  closed.
\<close>

definition is_disconnect :: "conn_event \<Rightarrow> bool" where
  "is_disconnect ev = (case ev of OnDisconnect _ \<Rightarrow> True | _ \<Rightarrow> False)"

definition disconnects :: "('o, 'q) AsioConnection \<Rightarrow> ('o \<times> conn_event) list" where
  "disconnects conn = filter (is_disconnect \<circ> snd) (c_log conn)"

definition event_ok :: "parser_env \<Rightarrow> ConnId \<Rightarrow> conn_event \<Rightarrow> bool" where
  "event_ok env connId ev =
     (case ev of
        OnMessage i msg \<Rightarrow> i = connId \<and> wf_message env msg
      | OnError _ _ \<Rightarrow> False
      | OnDisconnect i \<Rightarrow> i = connId)"

definition conn_inv :: "parser_env \<Rightarrow> ConnId \<Rightarrow> ('o, 'q) AsioConnection \<Rightarrow> bool" where
  "conn_inv env connId conn \<longleftrightarrow>
     m_connId conn = connId \<and> buffer_intact conn
     \<and> parser_inv env (m_parser conn) (m_message conn)
     \<and> (\<forall>(ob, ev) \<in> set (c_log conn). event_ok env connId ev)
     \<and> (m_socket_open conn \<longrightarrow> disconnects conn = [])"

lemma conn_inv_new: "conn_inv env connId (AsioConnection_new connId queue)"
  by (simp add: conn_inv_def AsioConnection_new_def buffer_intact_def disconnects_def)

lemma feed_inv:
  assumes "str_split (str_split_max env)"
  shows "parser_inv env p msg \<Longrightarrow> feed env msg p s = (ms, p', msg', ok) \<Longrightarrow>
    parser_inv env p' msg' \<and> list_all (wf_message env) ms"
proof (induction s arbitrary: p msg ms)
  case Nil
  then show ?case by auto
next
  case (Cons c s)
  obtain st p1 msg1 where step: "Consume env msg c p = (st, p1, msg1)" by (metis prod_cases3)
  then have inv1: "parser_inv env p1 msg1" using Consume_inv [OF assms Cons.prems(1)] by blast
  show ?case
  proof (cases st)
    case Incomplete
    with Cons.IH [OF inv1] Cons.prems(2) step show ?thesis by simp
  next
    case Complete
    with Cons.prems(2) step obtain ms1 where ms: "ms = msg1 # ms1"
        and rest: "feed env empty_message MessageParser_init s = (ms1, p', msg', ok)"
      by (auto split: prod.splits)
    have "wf_message env msg1"
      using inv1 Consume_Complete step Complete parser_inv_Complete_wf by blast
    with Cons.IH [OF parser_inv_init rest] ms show ?thesis by simp
  next
    case Invalid
    with Cons.prems(2) step inv1 show ?thesis by auto
  qed
qed

lemma disconnects_message_events [simp]:
  "filter (is_disconnect \<circ> snd) (message_events connId obs ms) = []"
  by (induction ms) (auto simp: message_events_def is_disconnect_def filter_empty_conv)

lemma set_message_events:
  "set (message_events connId obs ms) = (\<lambda>(ob, m). (ob, OnMessage connId m)) ` (set obs \<times> set ms)"
  by (auto simp: message_events_def)

lemma conn_after_feed_inv:
  assumes "str_split (str_split_max env)" and "conn_inv env connId conn"
  shows "conn_inv env connId (conn_after_feed env alive bytes conn)"
proof -
  obtain ms p msg ok where f: "feed env (m_message conn) (m_parser conn) bytes = (ms, p, msg, ok)"
    by (metis prod_cases4)
  with feed_inv [OF assms(1) _ f] assms(2)
  have "parser_inv env p msg" "list_all (wf_message env) ms" by (auto simp: conn_inv_def)
  with assms(2) f show ?thesis
    by (auto simp: conn_inv_def conn_after_feed_def buffer_intact_def disconnects_def
        set_message_events event_ok_def list_all_iff)
qed

lemma CloseUnderLock_eq:
  "CloseUnderLock api True alive conn =
     Inr (if m_socket_open conn
          then notify_event alive (OnDisconnect (m_connId conn))
                 (conn\<lparr>m_writeQueue := chan_cancel api (chan_close api (m_writeQueue conn)),
                       m_socket_open := False\<rparr>)
          else conn)"
  by (simp add: CloseUnderLock_def NotifyDisconnect_def)

lemma CloseUnderLock_inv:
  "conn_inv env connId conn \<Longrightarrow> CloseUnderLock api True alive conn = Inr conn' \<Longrightarrow>
     conn_inv env connId conn'"
  by (auto simp: conn_inv_def CloseUnderLock_eq notify_event_eq buffer_intact_def event_ok_def
      disconnects_def split: if_splits)

lemma conn_inv_loops [simp]:
  "conn_inv env connId (conn\<lparr>c_read := r\<rparr>) = conn_inv env connId conn"
  "conn_inv env connId (conn\<lparr>c_write := w\<rparr>) = conn_inv env connId conn"
  by (simp_all add: conn_inv_def buffer_intact_def disconnects_def)

lemma received_inv:
  assumes "conn_inv env connId conn" and "RunWriteLoop_received api alive rcv conn = Inr conn'"
  shows "conn_inv env connId conn'"
proof (cases rcv)
  case (Received msg)
  have "buffer_intact conn" using assms(1) by (simp add: conn_inv_def)
  from received_eq [OF this, of api alive msg] Received assms show ?thesis
    by (auto simp: conn_inv_def buffer_intact_def disconnects_def ComputeRequiredSpace_eq
        split: if_splits)
qed (use assms CloseUnderLock_inv in
      \<open>auto simp: RunWriteLoop_received_def Close_def split: sum.splits\<close>)

lemma written_inv:
  "conn_inv env connId conn \<Longrightarrow> RunWriteLoop_written api alive wr conn = Inr conn' \<Longrightarrow>
     conn_inv env connId conn'"
  by (cases wr) (auto simp: RunWriteLoop_written_def Close_def split: sum.splits
      intro: CloseUnderLock_inv)

lemma read_turn_inv:
  "str_split (str_split_max env) \<Longrightarrow> conn_inv env connId conn \<Longrightarrow>
     RunReadLoop_turn env api alive res conn = Inr conn' \<Longrightarrow> conn_inv env connId conn'"
  by (cases res) (auto simp: RunReadLoop_turn_def Close_def read_bytes_feed conn_after_feed_inv
      split: sum.splits intro: CloseUnderLock_inv)

lemma conn_step_inv:
  assumes "str_split (str_split_max env)"
  shows "conn_step env api conn conn' \<Longrightarrow> conn_inv env connId conn \<Longrightarrow> conn_inv env connId conn'"
proof (induction rule: conn_step.induct)
  case (connected conn)
  then show ?case by (simp add: OnConnected_def)
next
  case (deliver msg conn r conn')
  then show ?case
    by (auto simp: DeliverResponse_def conn_inv_def buffer_intact_def disconnects_def Let_def
        split: prod.splits if_splits)
next
  case (add_observer conn alive observer)
  then show ?case
    by (simp add: conn_AddObserver_def conn_inv_def buffer_intact_def disconnects_def)
next
  case (remove_observer conn alive observer)
  then show ?case
    by (simp add: conn_RemoveObserver_def conn_inv_def buffer_intact_def disconnects_def)
next
  case (read conn alive res conn')
  then show ?case using read_turn_inv [OF assms] by blast
next
  case (receive conn alive rcv conn')
  then show ?case using received_inv by blast
next
  case (written conn alive wr conn')
  then show ?case using written_inv by blast
next
  case (close alive conn conn')
  then show ?case using CloseUnderLock_inv by (simp add: Close_def)
qed

lemma conn_reachable_inv:
  assumes "str_split (str_split_max env)" and "conn_reachable env api connId queue conn"
  shows "conn_inv env connId conn"
  using assms(2)
  by (induction rule: conn_reachable.induct)
    (auto intro: conn_inv_new conn_step_inv [OF assms(1)])

section \<open>Closing happens once\<close>

lemma disconnects_loops [simp]:
  "disconnects (conn\<lparr>c_read := r\<rparr>) = disconnects conn"
  "disconnects (conn\<lparr>c_write := w\<rparr>) = disconnects conn"
  by (simp_all add: disconnects_def)

lemma Close_closed [simp]: "\<not> m_socket_open conn \<Longrightarrow> Close api alive conn = Inr conn"
  by (simp add: Close_def CloseUnderLock_eq)

lemma disconnects_after_feed [simp]: "disconnects (conn_after_feed env alive bytes conn) = disconnects conn"
  by (simp add: disconnects_def conn_after_feed_def split: prod.splits)

lemma socket_after_feed [simp]: "m_socket_open (conn_after_feed env alive bytes conn) = m_socket_open conn"
  by (simp add: conn_after_feed_def split: prod.splits)

text \<open>A closed connection stays closed and reports no second disconnect.\<close>

lemma conn_step_closed:
  "conn_step env api conn conn' \<Longrightarrow> \<not> m_socket_open conn \<Longrightarrow>
     \<not> m_socket_open conn' \<and> disconnects conn' = disconnects conn"
proof (induction rule: conn_step.induct)
  case (read conn alive res conn')
  then show ?case
    by (cases res) (auto simp: RunReadLoop_turn_def read_bytes_feed)
next
  case (receive conn alive rcv conn')
  then show ?case
    by (cases rcv) (auto simp: RunWriteLoop_received_def disconnects_def split: option.splits)
next
  case (written conn alive wr conn')
  then show ?case by (cases wr) (auto simp: RunWriteLoop_written_def)
qed (auto simp: conn_handler_defs disconnects_def Let_def split: prod.splits if_splits)

lemma conn_steps_closed:
  "(conn_step env api)\<^sup>*\<^sup>* conn conn' \<Longrightarrow> \<not> m_socket_open conn \<Longrightarrow>
     \<not> m_socket_open conn' \<and> disconnects conn' = disconnects conn"
  by (induction rule: rtranclp_induct) (auto dest: conn_step_closed)

end
