(* ===== verification/Config_Path.thy ===== *)
theory Config_Path
  imports Birch_Prelude "HOL-Library.List_Lexorder" "HOL-Library.Char_ord"
begin

text \<open>
  Dot-separated configuration keys: \<open>config/ConfigPath.h\<close> and \<open>config/ConfigPath.cc\<close>.
  The class has one field; the path is its list of segments. \<open>absl::StrSplit\<close> and
  \<open>absl::StrJoin\<close> come from outside the repository and are the record \<open>strings_api\<close>,
  with their documented behaviour as the locale \<open>abseil_strings\<close>.
\<close>

section \<open>Paths\<close>

datatype ConfigPath = ConfigPath (m_path: "string list")

record strings_api =
  str_split_all :: "char \<Rightarrow> string \<Rightarrow> string list"
  str_join :: "string \<Rightarrow> string list \<Rightarrow> string"

definition ConfigPath_empty :: ConfigPath where
  "ConfigPath_empty = ConfigPath []"

definition ConfigPath_of_segments :: "string list \<Rightarrow> ConfigPath" where
  "ConfigPath_of_segments segs = ConfigPath segs"

definition ConfigPath_of_string :: "strings_api \<Rightarrow> string \<Rightarrow> ConfigPath" where
  "ConfigPath_of_string api dotted_path = ConfigPath (str_split_all api (CHR ''.'') dotted_path)"

definition ConfigPath_assign_segments :: "string list \<Rightarrow> ConfigPath \<Rightarrow> ConfigPath" where
  "ConfigPath_assign_segments segs self = ConfigPath segs"

definition ConfigPath_assign_string :: "strings_api \<Rightarrow> string \<Rightarrow> ConfigPath \<Rightarrow> ConfigPath" where
  "ConfigPath_assign_string api dotted_path self =
     ConfigPath (str_split_all api (CHR ''.'') dotted_path)"

definition ConfigPath_swap :: "ConfigPath \<times> ConfigPath \<Rightarrow> ConfigPath \<times> ConfigPath" where
  "ConfigPath_swap lr = (ConfigPath (m_path (snd lr)), ConfigPath (m_path (fst lr)))"

definition ConfigPath_size :: "ConfigPath \<Rightarrow> nat" where
  "ConfigPath_size p = length (m_path p)"

definition ConfigPath_is_empty :: "ConfigPath \<Rightarrow> bool" where
  "ConfigPath_is_empty p = (m_path p = [])"

text \<open>\<open>operator[]\<close> is undefined outside the range (\<open>None\<close>), \<open>at\<close> throws there.\<close>

definition ConfigPath_index :: "ConfigPath \<Rightarrow> nat \<Rightarrow> string option" where
  "ConfigPath_index p i = (if i < length (m_path p) then Some (m_path p ! i) else None)"

datatype std_exception = out_of_range

definition ConfigPath_at :: "ConfigPath \<Rightarrow> nat \<Rightarrow> std_exception + string" where
  "ConfigPath_at p i = (if i < length (m_path p) then Inr (m_path p ! i) else Inl out_of_range)"

definition ConfigPath_segments :: "ConfigPath \<Rightarrow> string list" where
  "ConfigPath_segments p = m_path p"

definition ConfigPath_ToString :: "strings_api \<Rightarrow> ConfigPath \<Rightarrow> string" where
  "ConfigPath_ToString api p = str_join api ''.'' (m_path p)"

definition ConfigPath_Append_key :: "ConfigPath \<Rightarrow> string \<Rightarrow> ConfigPath" where
  "ConfigPath_Append_key p key = ConfigPath (m_path p @ [key])"

definition ConfigPath_Append :: "ConfigPath \<Rightarrow> ConfigPath \<Rightarrow> ConfigPath" where
  "ConfigPath_Append p q = ConfigPath (m_path p @ m_path q)"

text \<open>
  The defaulted \<open>operator<=>\<close> compares the vectors lexicographically, and strings by
  unsigned bytes; it is the order of the node cache.
\<close>

definition ConfigPath_le :: "ConfigPath \<Rightarrow> ConfigPath \<Rightarrow> bool" where
  "ConfigPath_le p q \<longleftrightarrow> m_path p \<le> m_path q"

definition ConfigPath_less :: "ConfigPath \<Rightarrow> ConfigPath \<Rightarrow> bool" where
  "ConfigPath_less p q \<longleftrightarrow> m_path p < m_path q"

instantiation ConfigPath :: linorder
begin

definition less_eq_ConfigPath :: "ConfigPath \<Rightarrow> ConfigPath \<Rightarrow> bool" where
  "less_eq_ConfigPath = ConfigPath_le"

definition less_ConfigPath :: "ConfigPath \<Rightarrow> ConfigPath \<Rightarrow> bool" where
  "less_ConfigPath = ConfigPath_less"

instance
  by standard
    (auto simp: less_eq_ConfigPath_def less_ConfigPath_def ConfigPath_le_def ConfigPath_less_def
      intro: ConfigPath.expand)

end

section \<open>The library contract\<close>

locale abseil_strings =
  fixes split :: "char \<Rightarrow> string \<Rightarrow> string list"
    and join :: "string \<Rightarrow> string list \<Rightarrow> string"
  assumes split_absent: "d \<notin> set s \<Longrightarrow> split d s = [s]"
    and split_first: "d \<notin> set p \<Longrightarrow> split d (p @ d # s) = p # split d s"
    and join_Nil: "join sep [] = []"
    and join_one: "join sep [x] = x"
    and join_more: "join sep (x # y # zs) = x @ sep @ join sep (y # zs)"
begin

lemma split_eq: "split d s = split_on d s"
proof (induction "length s" arbitrary: s rule: less_induct)
  case less
  show ?case
  proof (cases "d \<in> set s")
    case False
    then show ?thesis by (simp add: split_absent split_on_no_delim)
  next
    case True
    then obtain p q where s: "s = p @ d # q" and p: "d \<notin> set p"
      by (blast dest: split_list_first)
    with less [of q] show ?thesis by (simp add: split_first split_on_append)
  qed
qed

lemma join_eq: "join sep xs = join_with sep xs"
  by (induction sep xs rule: join_with.induct) (simp_all add: join_Nil join_one join_more)

end

interpretation abseil_ref: abseil_strings split_on join_with
  by unfold_locales (simp_all add: split_on_no_delim split_on_append)

abbreviation strings_ok :: "strings_api \<Rightarrow> bool" where
  "strings_ok api \<equiv> abseil_strings (str_split_all api) (str_join api)"

text \<open>An instance for examples.\<close>

definition ref_strings :: strings_api where
  "ref_strings = \<lparr>str_split_all = split_on, str_join = join_with\<rparr>"

lemma ref_strings_ok [simp]: "strings_ok ref_strings"
  by (simp add: ref_strings_def abseil_ref.abseil_strings_axioms)

section \<open>Text and path\<close>

lemma ToString_eq: "strings_ok api \<Longrightarrow> ConfigPath_ToString api p = join_with ''.'' (m_path p)"
  by (simp add: ConfigPath_ToString_def abseil_strings.join_eq)

lemma of_string_eq: "strings_ok api \<Longrightarrow> ConfigPath_of_string api s = ConfigPath (split_on (CHR ''.'') s)"
  by (simp add: ConfigPath_of_string_def abseil_strings.split_eq)

definition plain_path :: "ConfigPath \<Rightarrow> bool" where
  "plain_path p \<longleftrightarrow> m_path p \<noteq> [] \<and> list_all (\<lambda>seg. CHR ''.'' \<notin> set seg) (m_path p)"

lemma plain_of_string: "strings_ok api \<Longrightarrow> plain_path (ConfigPath_of_string api s)"
  by (auto simp: plain_path_def of_string_eq list_all_iff dest: split_on_pieces)

lemma of_string_ToString:
  assumes "strings_ok api"
  shows "ConfigPath_of_string api (ConfigPath_ToString api p) = p \<longleftrightarrow> plain_path p"
proof
  assume "ConfigPath_of_string api (ConfigPath_ToString api p) = p"
  then show "plain_path p" using plain_of_string [OF assms] by metis
next
  assume "plain_path p"
  then have "split_on (CHR ''.'') (join_with ''.'' (m_path p)) = m_path p"
    by (intro split_join_with) (auto simp: plain_path_def list_all_iff)
  then show "ConfigPath_of_string api (ConfigPath_ToString api p) = p"
    using assms by (intro ConfigPath.expand) (simp add: of_string_eq ToString_eq)
qed

lemma ToString_of_string:
  "strings_ok api \<Longrightarrow> ConfigPath_ToString api (ConfigPath_of_string api s) = s"
  by (simp add: ToString_eq of_string_eq)

lemma join_with_append:
  "xs \<noteq> [] \<Longrightarrow> ys \<noteq> [] \<Longrightarrow> join_with sep (xs @ ys) = join_with sep xs @ sep @ join_with sep ys"
  by (induction xs) (auto simp: join_with_Cons)

text \<open>
  C27. \<^bold>\<open>Paths and dotted strings.\<close> Rendering a path and parsing it back gives the path
  exactly when it has at least one segment and no segment contains a dot; parsing a string
  and rendering it gives the string always.
\<close>

theorem config_path_roundtrip:
  assumes "strings_ok api"
  shows "(ConfigPath_of_string api (ConfigPath_ToString api p) = p \<longleftrightarrow>
            (\<not> ConfigPath_is_empty p \<and> (\<forall>seg \<in> set (ConfigPath_segments p). CHR ''.'' \<notin> set seg)))
       \<and> ConfigPath_ToString api (ConfigPath_of_string api s) = s"
  using of_string_ToString [OF assms] ToString_of_string [OF assms]
  by (simp add: plain_path_def ConfigPath_is_empty_def ConfigPath_segments_def list_all_iff)

theorem config_path_roundtrip_witness:
  "ConfigPath_of_string ref_strings
     (ConfigPath_ToString ref_strings (ConfigPath [''server'', ''port'']))
     = ConfigPath [''server'', ''port'']
   \<and> ConfigPath_ToString ref_strings (ConfigPath_of_string ref_strings ''a.b'') = ''a.b''"
  using config_path_roundtrip [OF ref_strings_ok, of "ConfigPath [''server'', ''port'']" "''a.b''"]
  by (simp add: ConfigPath_is_empty_def ConfigPath_segments_def)

text \<open>
  \<^bold>\<open>The empty string is not the empty path.\<close> A path built from a string never is the
  empty path, so the root of the configuration cannot be named by a string: the empty
  string gives the one-segment path whose only segment is empty, and the empty path and
  that path render to the same text.
\<close>

theorem empty_string_not_root:
  assumes "strings_ok api"
  shows "\<not> ConfigPath_is_empty (ConfigPath_of_string api s)
    \<and> ConfigPath_of_string api [] = ConfigPath [[]]
    \<and> ConfigPath_of_string api [] \<noteq> ConfigPath_empty
    \<and> ConfigPath_ToString api (ConfigPath_of_string api []) = ConfigPath_ToString api ConfigPath_empty"
  using assms
  by (simp add: ConfigPath_is_empty_def of_string_eq ToString_eq ConfigPath_empty_def)

theorem empty_string_not_root_witness:
  "ConfigPath_of_string ref_strings [] \<noteq> ConfigPath_empty"
  using empty_string_not_root [OF ref_strings_ok] by blast

text \<open>
  \<^bold>\<open>Appending.\<close> Appending paths is associative with the empty path as unit, appending
  a key is appending the one-segment path, sizes add up, the text of an appended path is
  the two texts with a dot between, and a prefix is never greater in the order of the node
  cache.
\<close>

theorem config_path_append:
  assumes "strings_ok api"
  shows "ConfigPath_Append (ConfigPath_Append p q) r = ConfigPath_Append p (ConfigPath_Append q r)
    \<and> ConfigPath_Append ConfigPath_empty p = p \<and> ConfigPath_Append p ConfigPath_empty = p
    \<and> ConfigPath_Append_key p key = ConfigPath_Append p (ConfigPath_of_segments [key])
    \<and> ConfigPath_size (ConfigPath_Append p q) = ConfigPath_size p + ConfigPath_size q
    \<and> (\<not> ConfigPath_is_empty p \<longrightarrow> \<not> ConfigPath_is_empty q \<longrightarrow>
         ConfigPath_ToString api (ConfigPath_Append p q)
           = ConfigPath_ToString api p @ ''.'' @ ConfigPath_ToString api q)
    \<and> p \<le> ConfigPath_Append p q"
proof -
  have "xs \<le> xs @ ys" for xs ys :: "string list" by (induction xs) auto
  then show ?thesis using assms
    by (auto simp: ConfigPath_Append_def ConfigPath_Append_key_def ConfigPath_empty_def
        ConfigPath_of_segments_def ConfigPath_size_def ConfigPath_is_empty_def ToString_eq
        join_with_append less_eq_ConfigPath_def ConfigPath_le_def)
qed

theorem config_path_append_witness:
  "ConfigPath_ToString ref_strings (ConfigPath_Append (ConfigPath [''a'']) (ConfigPath [''b'']))
     = ''a.b''"
  using config_path_append [OF ref_strings_ok, of "ConfigPath [''a'']" "ConfigPath [''b'']"]
  by (simp add: ConfigPath_is_empty_def ToString_eq)

end
