(* ===== verification/Toml_Config.thy ===== *)
theory Toml_Config
  imports Config_Path
begin

text \<open>
  The configuration tree: the interfaces of \<open>config/IConfig.h\<close> and their TOML
  implementation \<open>config/TomlConfig.h\<close>, \<open>config/TomlConfig.cc\<close>.

  The TOML library is outside the repository. A parsed document is data of the type
  \<open>toml_node\<close>, one constructor per node kind the code tests for and one for the kinds it
  does not handle (dates and times); \<open>toml::parse\<close> is an argument of \<open>Reload\<close>, and a
  parse error is \<open>None\<close>. Doubles are an abstract type \<open>'d\<close>. Values are never changed in
  place after they are shared, so a \<open>shared_ptr<TomlValue>\<close> is the value; nodes have
  identity, because the cache holds weak pointers to them, so they live in a heap.
\<close>

section \<open>TOML documents\<close>

datatype 'd toml_node =
    toml_array "'d toml_node list"
  | toml_table "(string \<times> 'd toml_node) list"
  | toml_string string
  | toml_integer "64 word"
  | toml_floating_point 'd
  | toml_boolean bool
  | toml_other

section \<open>Values\<close>

datatype 'd TomlValue =
    VBool bool
  | VInt64 "64 word"
  | VDouble 'd
  | VString string
  | VList "'d TomlValue list"
  | VMap "(string \<times> 'd TomlValue) list"

type_synonym 'd TomlList = "'d TomlValue list"
type_synonym 'd TomlMap = "(string \<times> 'd TomlValue) list"

text \<open>
  \<open>NodeToVariant\<close>, \<open>TomlList::Create\<close> and \<open>TomlMap::Create\<close> call one another. Elements
  that cannot be converted are dropped; a map keeps the first of two equal keys
  (\<open>emplace\<close>).
\<close>

fun NodeToVariant :: "'d toml_node \<Rightarrow> 'd TomlValue option"
  and TomlList_Create :: "'d toml_node list \<Rightarrow> 'd TomlList"
  and TomlMap_Create :: "(string \<times> 'd toml_node) list \<Rightarrow> 'd TomlMap \<Rightarrow> 'd TomlMap" where
  "NodeToVariant (toml_array arr) = Some (VList (TomlList_Create arr))"
| "NodeToVariant (toml_table tbl) = Some (VMap (TomlMap_Create tbl []))"
| "NodeToVariant (toml_string s) = Some (VString s)"
| "NodeToVariant (toml_integer i) = Some (VInt64 i)"
| "NodeToVariant (toml_floating_point d) = Some (VDouble d)"
| "NodeToVariant (toml_boolean b) = Some (VBool b)"
| "NodeToVariant toml_other = None"
| "TomlList_Create [] = []"
| "TomlList_Create (element # arr) =
     (case NodeToVariant element of
        None \<Rightarrow> TomlList_Create arr
      | Some v \<Rightarrow> v # TomlList_Create arr)"
| "TomlMap_Create [] vals = vals"
| "TomlMap_Create ((key, node) # tbl) vals =
     (case NodeToVariant node of
        None \<Rightarrow> TomlMap_Create tbl vals
      | Some v \<Rightarrow> TomlMap_Create tbl (lhm_emplace key v vals))"

definition TomlValue_Create :: "'d toml_node \<Rightarrow> 'd TomlValue option" where
  "TomlValue_Create node = (case NodeToVariant node of None \<Rightarrow> None | Some v \<Rightarrow> Some v)"

definition TomlValue_Reset :: "'d toml_node \<Rightarrow> 'd TomlValue \<Rightarrow> 'd TomlValue" where
  "TomlValue_Reset node self = (case NodeToVariant node of None \<Rightarrow> self | Some v \<Rightarrow> v)"

definition AsBool :: "'d TomlValue \<Rightarrow> bool option" where
  "AsBool v = (case v of VBool b \<Rightarrow> Some b | _ \<Rightarrow> None)"

definition AsInt64 :: "'d TomlValue \<Rightarrow> 64 word option" where
  "AsInt64 v = (case v of VInt64 i \<Rightarrow> Some i | _ \<Rightarrow> None)"

definition AsDouble :: "'d TomlValue \<Rightarrow> 'd option" where
  "AsDouble v = (case v of VDouble d \<Rightarrow> Some d | _ \<Rightarrow> None)"

definition AsString :: "'d TomlValue \<Rightarrow> string option" where
  "AsString v = (case v of VString s \<Rightarrow> Some s | _ \<Rightarrow> None)"

definition AsArray :: "'d TomlValue \<Rightarrow> 'd TomlList option" where
  "AsArray v = (case v of VList l \<Rightarrow> Some l | _ \<Rightarrow> None)"

definition AsMap :: "'d TomlValue \<Rightarrow> 'd TomlMap option" where
  "AsMap v = (case v of VMap m \<Rightarrow> Some m | _ \<Rightarrow> None)"

definition TomlList_Size :: "'d TomlList \<Rightarrow> nat" where
  "TomlList_Size l = length l"

definition TomlList_Get :: "'d TomlList \<Rightarrow> nat \<Rightarrow> std_exception + 'd TomlValue" where
  "TomlList_Get l i = (if i < length l then Inr (l ! i) else Inl out_of_range)"

definition TomlMap_Size :: "'d TomlMap \<Rightarrow> nat" where
  "TomlMap_Size m = length m"

definition TomlMap_Get :: "'d TomlMap \<Rightarrow> string \<Rightarrow> 'd TomlValue option" where
  "TomlMap_Get m key = map_of m key"

text \<open>The loop of \<open>Dig\<close> over the segments of the path.\<close>

fun Dig_loop :: "'d TomlValue \<Rightarrow> string list \<Rightarrow> 'd TomlValue option" where
  "Dig_loop cur [] = Some cur"
| "Dig_loop cur (segment # path) =
     (case AsMap cur of
        None \<Rightarrow> None
      | Some m \<Rightarrow>
          (case TomlMap_Get m segment of
             None \<Rightarrow> None
           | Some nxt \<Rightarrow> Dig_loop nxt path))"

definition Dig :: "'d TomlValue option \<Rightarrow> ConfigPath \<Rightarrow> 'd TomlValue option" where
  "Dig val path = (case val of None \<Rightarrow> None | Some v \<Rightarrow> Dig_loop v (m_path path))"

section \<open>Nodes and the configuration\<close>

record ('d, 'cb) TomlNode =
  tn_path :: ConfigPath
  tn_value :: "'d TomlValue"
  tn_callbacks :: "'cb list"

definition TomlNode_new :: "ConfigPath \<Rightarrow> 'd TomlValue \<Rightarrow> ('d, 'cb) TomlNode" where
  "TomlNode_new path val = \<lparr>tn_path = path, tn_value = val, tn_callbacks = []\<rparr>"

definition TomlNode_Subscribe :: "'cb \<Rightarrow> ('d, 'cb) TomlNode \<Rightarrow> ('d, 'cb) TomlNode" where
  "TomlNode_Subscribe callback node =
     (if AsArray (tn_value node) \<noteq> None then node
      else node\<lparr>tn_callbacks := tn_callbacks node @ [callback]\<rparr>)"

text \<open>\<open>Notify\<close> calls each callback with the path and the value, in order.\<close>

definition TomlNode_Notify ::
  "('cb \<Rightarrow> ConfigPath \<Rightarrow> 'd TomlValue \<Rightarrow> 'w \<Rightarrow> 'w) \<Rightarrow> ('d, 'cb) TomlNode \<Rightarrow> 'w \<Rightarrow> 'w" where
  "TomlNode_Notify call node w =
     (if AsArray (tn_value node) \<noteq> None then w
      else fold (\<lambda>callback. call callback (tn_path node) (tn_value node)) (tn_callbacks node) w)"

type_synonym addr = nat

text \<open>
  \<open>tc_heap\<close> holds the nodes some \<open>shared_ptr\<close> still owns, \<open>tc_next\<close> the next unused
  address: a weak pointer to a destroyed node never refers to a later one.
\<close>

record ('d, 'cb) TomlConfig =
  m_root :: "'d TomlValue option"
  m_nodes :: "ConfigPath \<rightharpoonup> addr"
  tc_heap :: "addr \<rightharpoonup> ('d, 'cb) TomlNode"
  tc_next :: addr

definition TomlConfig_new :: "('d, 'cb) TomlConfig" where
  "TomlConfig_new = \<lparr>m_root = None, m_nodes = Map.empty, tc_heap = Map.empty, tc_next = 0\<rparr>"

text \<open>\<open>contents\<close> is what \<open>m_source->Read()\<close> returned.\<close>

definition Reload ::
  "(string \<Rightarrow> (string \<times> 'd toml_node) list option) \<Rightarrow> string status_or
     \<Rightarrow> ('d, 'cb) TomlConfig \<Rightarrow> ('d, 'cb) TomlConfig" where
  "Reload toml_parse contents cfg =
     (case contents of
        Inl st \<Rightarrow> cfg
      | Inr str \<Rightarrow>
          (case toml_parse str of
             None \<Rightarrow> cfg
           | Some tbl \<Rightarrow> cfg\<lparr>m_root := TomlValue_Create (toml_table tbl)\<rparr>))"

definition TomlConfig_Create ::
  "(string \<Rightarrow> (string \<times> 'd toml_node) list option) \<Rightarrow> string status_or
     \<Rightarrow> ('d, 'cb) TomlConfig" where
  "TomlConfig_Create toml_parse contents = Reload toml_parse contents TomlConfig_new"

definition GetNode ::
  "ConfigPath \<Rightarrow> ('d, 'cb) TomlConfig \<Rightarrow> addr option \<times> ('d, 'cb) TomlConfig" where
  "GetNode path cfg =
     (let (cached, cfg) =
            (case m_nodes cfg path of
               None \<Rightarrow> (None, cfg)
             | Some a \<Rightarrow>
                 (case tc_heap cfg a of
                    Some node \<Rightarrow> (Some a, cfg)
                  | None \<Rightarrow> (None, cfg\<lparr>m_nodes := (m_nodes cfg)(path := None)\<rparr>)))
      in case cached of
           Some a \<Rightarrow> (Some a, cfg)
         | None \<Rightarrow>
             (case Dig (m_root cfg) path of
                None \<Rightarrow> (None, cfg)
              | Some result \<Rightarrow>
                  (Some (tc_next cfg),
                   cfg\<lparr>m_nodes := (m_nodes cfg)(path \<mapsto> tc_next cfg),
                       tc_heap := (tc_heap cfg)(tc_next cfg \<mapsto> TomlNode_new path result),
                       tc_next := tc_next cfg + 1\<rparr>)))"

definition GetRootNode :: "('d, 'cb) TomlConfig \<Rightarrow> addr option \<times> ('d, 'cb) TomlConfig" where
  "GetRootNode cfg = GetNode ConfigPath_empty cfg"

text \<open>The last owner of a node lets go of it.\<close>

definition node_released :: "addr \<Rightarrow> ('d, 'cb) TomlConfig \<Rightarrow> ('d, 'cb) TomlConfig" where
  "node_released a cfg = cfg\<lparr>tc_heap := (tc_heap cfg)(a := None)\<rparr>"

definition node_subscribed :: "addr \<Rightarrow> 'cb \<Rightarrow> ('d, 'cb) TomlConfig \<Rightarrow> ('d, 'cb) TomlConfig" where
  "node_subscribed a callback cfg =
     cfg\<lparr>tc_heap := (tc_heap cfg)(a := map_option (TomlNode_Subscribe callback) (tc_heap cfg a))\<rparr>"

lemmas value_accessors = AsBool_def AsInt64_def AsDouble_def AsString_def AsArray_def AsMap_def

section \<open>Looking up a path\<close>

lemma Dig_loop_append:
  "Dig_loop v (xs @ ys) = (case Dig_loop v xs of None \<Rightarrow> None | Some w \<Rightarrow> Dig_loop w ys)"
  by (induction v xs rule: Dig_loop.induct) (auto split: option.splits)

text \<open>The TOML document read by path, before any conversion.\<close>

fun toml_lookup :: "'d toml_node \<Rightarrow> string list \<Rightarrow> 'd toml_node option" where
  "toml_lookup node [] = Some node"
| "toml_lookup (toml_table tbl) (segment # path) =
     (case map_of tbl segment of None \<Rightarrow> None | Some n \<Rightarrow> toml_lookup n path)"
| "toml_lookup _ (segment # path) = None"

text \<open>In a TOML table every key occurs once.\<close>

fun toml_wf :: "'d toml_node \<Rightarrow> bool" where
  "toml_wf (toml_table tbl) \<longleftrightarrow> distinct (map fst tbl) \<and> (\<forall>kn \<in> set tbl. toml_wf (snd kn))"
| "toml_wf (toml_array arr) \<longleftrightarrow> (\<forall>n \<in> set arr. toml_wf n)"
| "toml_wf _ \<longleftrightarrow> True"

lemma map_of_TomlMap_Create:
  "distinct (map fst tbl) \<Longrightarrow> map_of vals key = None \<Longrightarrow>
     map_of (TomlMap_Create tbl vals) key
       = (case map_of tbl key of None \<Rightarrow> None | Some n \<Rightarrow> NodeToVariant n)"
proof (induction tbl arbitrary: vals)
  case Nil
  then show ?case by simp
next
  case (Cons kn tbl)
  obtain k n where kn: "kn = (k, n)" by (cases kn)
  have keep: "map_of (TomlMap_Create tbl vs) key = map_of vs key" if "map_of tbl key = None" for vs
    using that
    by (induction tbl arbitrary: vs) (auto simp: map_of_lhm_emplace split: option.splits if_splits)
  show ?case
  proof (cases "k = key")
    case True
    with Cons.prems kn have "map_of tbl key = None" by (simp add: map_of_eq_None_iff)
    with True Cons.prems kn show ?thesis
      by (auto simp: keep map_of_lhm_emplace split: option.splits)
  next
    case False
    with Cons kn show ?thesis by (auto simp: map_of_lhm_emplace split: option.splits)
  qed
qed

lemma AsMap_NodeToVariant:
  "NodeToVariant node = Some v \<Longrightarrow>
     AsMap v = (case node of toml_table tbl \<Rightarrow> Some (TomlMap_Create tbl []) | _ \<Rightarrow> None)"
  by (cases node) (auto simp: AsMap_def)

lemma Dig_loop_NodeToVariant:
  "toml_wf node \<Longrightarrow> NodeToVariant node = Some v \<Longrightarrow>
     Dig_loop v path = (case toml_lookup node path of None \<Rightarrow> None | Some n \<Rightarrow> NodeToVariant n)"
proof (induction path arbitrary: node v)
  case Nil
  then show ?case by simp
next
  case (Cons segment path)
  show ?case
  proof (cases node)
    case (toml_table tbl)
    with Cons.prems have wf: "distinct (map fst tbl)" and sub: "\<And>n. map_of tbl segment = Some n \<Longrightarrow> toml_wf n"
      by (auto dest: map_of_SomeD)
    have get: "TomlMap_Get (TomlMap_Create tbl []) segment
        = (case map_of tbl segment of None \<Rightarrow> None | Some n \<Rightarrow> NodeToVariant n)"
      using map_of_TomlMap_Create [OF wf, of "[]" segment] by (simp add: TomlMap_Get_def)
    have stuck: "(case toml_lookup n path of None \<Rightarrow> None | Some m \<Rightarrow> NodeToVariant m) = None"
      if "NodeToVariant n = None" for n :: "'a toml_node"
      using that by (cases n; cases path) auto
    have "Dig_loop v (segment # path)
        = (case map_of tbl segment of
             None \<Rightarrow> None
           | Some n \<Rightarrow> (case NodeToVariant n of None \<Rightarrow> None | Some nxt \<Rightarrow> Dig_loop nxt path))"
      using AsMap_NodeToVariant [OF Cons.prems(2)] toml_table get by (simp split: option.split)
    also have "\<dots> = (case toml_lookup node (segment # path) of
        None \<Rightarrow> None | Some n \<Rightarrow> NodeToVariant n)"
    proof (cases "map_of tbl segment")
      case (Some n)
      with toml_table show ?thesis
        using Cons.IH [OF sub [OF Some]] stuck [of n] by (cases "NodeToVariant n") simp_all
    qed (use toml_table in simp)
    finally show ?thesis .
  qed (use Cons.prems in \<open>auto simp: AsMap_def\<close>)
qed

section \<open>The node cache\<close>

text \<open>
  A cached node that is still alive sits under its own path, every live node is in the
  cache (so a path has at most one live node), and no address at or above \<open>tc_next\<close> is in
  use.
\<close>

definition cache_inv :: "('d, 'cb) TomlConfig \<Rightarrow> bool" where
  "cache_inv cfg \<longleftrightarrow>
     (\<forall>path a node. m_nodes cfg path = Some a \<longrightarrow> tc_heap cfg a = Some node \<longrightarrow> tn_path node = path)
     \<and> (\<forall>a node. tc_heap cfg a = Some node \<longrightarrow> m_nodes cfg (tn_path node) = Some a)
     \<and> (\<forall>path a. m_nodes cfg path = Some a \<longrightarrow> a < tc_next cfg)
     \<and> (\<forall>a node. tc_heap cfg a = Some node \<longrightarrow> a < tc_next cfg)"

lemma cache_inv_new [simp]: "cache_inv TomlConfig_new"
  by (simp add: cache_inv_def TomlConfig_new_def)

lemma cache_inv_Reload [simp]: "cache_inv cfg \<Longrightarrow> cache_inv (Reload toml_parse contents cfg)"
  by (auto simp: cache_inv_def Reload_def split: sum.splits option.splits)

lemma cache_inv_released [simp]: "cache_inv cfg \<Longrightarrow> cache_inv (node_released a cfg)"
  by (auto simp: cache_inv_def node_released_def split: if_splits)

lemma tn_path_Subscribe [simp]: "tn_path (TomlNode_Subscribe cb node) = tn_path node"
  by (simp add: TomlNode_Subscribe_def)

lemma cache_inv_subscribed [simp]: "cache_inv cfg \<Longrightarrow> cache_inv (node_subscribed a cb cfg)"
  by (auto simp: cache_inv_def node_subscribed_def split: if_splits)

text \<open>The cached node of a path, if it is alive.\<close>

definition live_node :: "ConfigPath \<Rightarrow> ('d, 'cb) TomlConfig \<Rightarrow> addr option" where
  "live_node path cfg =
     (case m_nodes cfg path of
        None \<Rightarrow> None
      | Some a \<Rightarrow> if tc_heap cfg a = None then None else Some a)"

lemma GetNode_live: "live_node path cfg = Some a \<Longrightarrow> GetNode path cfg = (Some a, cfg)"
  by (auto simp: live_node_def GetNode_def split: option.splits if_splits)

lemma GetNode_absent:
  "live_node path cfg = None \<Longrightarrow>
     GetNode path cfg =
       (let cfg' = cfg\<lparr>m_nodes := (m_nodes cfg)(path := None)\<rparr> in
          case Dig (m_root cfg) path of
            None \<Rightarrow> (None, cfg')
          | Some v \<Rightarrow> (Some (tc_next cfg),
                       cfg\<lparr>m_nodes := (m_nodes cfg)(path \<mapsto> tc_next cfg),
                           tc_heap := (tc_heap cfg)(tc_next cfg \<mapsto> TomlNode_new path v),
                           tc_next := tc_next cfg + 1\<rparr>))"
  by (cases cfg)
    (auto simp: live_node_def GetNode_def Let_def fun_upd_idem split: option.splits if_splits)

lemma cache_invD:
  assumes "cache_inv cfg"
  shows "m_nodes cfg path = Some a \<Longrightarrow> tc_heap cfg a = Some node \<Longrightarrow> tn_path node = path"
    and "tc_heap cfg a = Some node \<Longrightarrow> m_nodes cfg (tn_path node) = Some a"
    and "m_nodes cfg path = Some a \<Longrightarrow> a < tc_next cfg"
    and "tc_heap cfg a = Some node \<Longrightarrow> a < tc_next cfg"
  using assms unfolding cache_inv_def by blast+

lemma live_node_iff:
  assumes "cache_inv cfg"
  shows "live_node path cfg = Some a \<longleftrightarrow> (\<exists>node. tc_heap cfg a = Some node \<and> tn_path node = path)"
proof
  assume "live_node path cfg = Some a"
  then obtain node where "m_nodes cfg path = Some a" "tc_heap cfg a = Some node"
    by (auto simp: live_node_def split: option.splits if_splits)
  with cache_invD(1) [OF assms] show "\<exists>node. tc_heap cfg a = Some node \<and> tn_path node = path"
    by blast
next
  assume "\<exists>node. tc_heap cfg a = Some node \<and> tn_path node = path"
  with cache_invD(2) [OF assms] show "live_node path cfg = Some a"
    by (auto simp: live_node_def)
qed

lemma live_node_None:
  assumes "cache_inv cfg" and "live_node path cfg = None" and "tc_heap cfg a = Some node"
  shows "tn_path node \<noteq> path"
  using live_node_iff [OF assms(1), of path a] assms(2,3) by auto

lemma cache_inv_erase:
  assumes "cache_inv cfg" and "live_node path cfg = None"
  shows "cache_inv (cfg\<lparr>m_nodes := (m_nodes cfg)(path := None)\<rparr>)"
  unfolding cache_inv_def using cache_invD [OF assms(1)] live_node_None [OF assms]
  by (auto split: if_splits)

lemma cache_inv_insert:
  assumes "cache_inv cfg" and "live_node path cfg = None" and "tn_path node = path"
  shows "cache_inv (cfg\<lparr>m_nodes := (m_nodes cfg)(path \<mapsto> tc_next cfg),
                       tc_heap := (tc_heap cfg)(tc_next cfg \<mapsto> node),
                       tc_next := tc_next cfg + 1\<rparr>)"
  unfolding cache_inv_def
  using assms(3) cache_invD(1,2) [OF assms(1)] live_node_None [OF assms(1,2)]
  by (auto split: if_splits dest: cache_invD(3,4) [OF assms(1)])

lemma GetNode_inv:
  assumes "cache_inv cfg" and "GetNode path cfg = (res, cfg')"
  shows "cache_inv cfg'"
proof (cases "live_node path cfg")
  case None
  with assms GetNode_absent [OF None] cache_inv_erase [OF assms(1) None]
    cache_inv_insert [OF assms(1) None] show ?thesis
    by (auto simp: TomlNode_new_def Let_def split: option.splits)
next
  case (Some a)
  with assms GetNode_live [OF Some] show ?thesis by simp
qed

text \<open>
  The uses of a configuration object: reloads, lookups, subscriptions and the end of a
  node's life, in any order.
\<close>

inductive config_reachable ::
  "(string \<Rightarrow> (string \<times> 'd toml_node) list option) \<Rightarrow> ('d, 'cb) TomlConfig \<Rightarrow> bool"
  for toml_parse :: "string \<Rightarrow> (string \<times> 'd toml_node) list option" where
  create: "config_reachable toml_parse (TomlConfig_Create toml_parse contents)"
| reload: "config_reachable toml_parse cfg \<Longrightarrow>
     config_reachable toml_parse (Reload toml_parse contents cfg)"
| get_node: "config_reachable toml_parse cfg \<Longrightarrow> GetNode path cfg = (res, cfg') \<Longrightarrow>
     config_reachable toml_parse cfg'"
| subscribe: "config_reachable toml_parse cfg \<Longrightarrow>
     config_reachable toml_parse (node_subscribed a callback cfg)"
| release: "config_reachable toml_parse cfg \<Longrightarrow>
     config_reachable toml_parse (node_released a cfg)"

lemma config_reachable_inv: "config_reachable toml_parse cfg \<Longrightarrow> cache_inv cfg"
  by (induction rule: config_reachable.induct) (auto simp: TomlConfig_Create_def intro: GetNode_inv)

lemma GetNode_result:
  assumes "cache_inv cfg" and "GetNode path cfg = (Some a, cfg')"
  shows "\<exists>node. tc_heap cfg' a = Some node \<and> tn_path node = path"
proof (cases "live_node path cfg")
  case None
  with assms GetNode_absent [OF None] show ?thesis
    by (auto simp: TomlNode_new_def Let_def split: option.splits)
next
  case (Some b)
  with assms GetNode_live [OF Some] show ?thesis using live_node_iff by fastforce
qed

lemma Reload_frame [simp]:
  "m_nodes (Reload toml_parse contents cfg) = m_nodes cfg"
  "tc_heap (Reload toml_parse contents cfg) = tc_heap cfg"
  "tc_next (Reload toml_parse contents cfg) = tc_next cfg"
  by (simp_all add: Reload_def split: sum.splits option.splits)

lemma fold_Subscribe:
  "fold TomlNode_Subscribe callbacks node =
     (if AsArray (tn_value node) = None
      then node\<lparr>tn_callbacks := tn_callbacks node @ callbacks\<rparr> else node)"
  by (induction callbacks arbitrary: node) (simp_all add: TomlNode_Subscribe_def)

section \<open>Properties\<close>

text \<open>
  C11. A freshly created configuration gives for every path the value the TOML document
  has there, converted, in a new node without callbacks, and nothing exactly when the path
  leads to nothing convertible.
\<close>

theorem GetNode_document:
  assumes "toml_parse str = Some tbl" and "toml_wf (toml_table tbl)"
    and "GetNode path (TomlConfig_Create toml_parse (Inr str)) = (res, cfg')"
  shows "case Option.bind (toml_lookup (toml_table tbl) (m_path path)) NodeToVariant of
      None \<Rightarrow> res = None
    | Some v \<Rightarrow> \<exists>a. res = Some a \<and>
        tc_heap cfg' a = Some \<lparr>tn_path = path, tn_value = v, tn_callbacks = []\<rparr>"
proof -
  let ?cfg = "TomlConfig_Create toml_parse (Inr str) :: ('a, 'b) TomlConfig"
  have root: "m_root ?cfg = NodeToVariant (toml_table tbl)"
    using assms(1) by (simp add: TomlConfig_Create_def Reload_def TomlValue_Create_def)
  have "live_node path ?cfg = None"
    by (simp add: live_node_def TomlConfig_Create_def TomlConfig_new_def)
  moreover have "Dig (m_root ?cfg) path
      = Option.bind (toml_lookup (toml_table tbl) (m_path path)) NodeToVariant"
    unfolding Dig_def root using Dig_loop_NodeToVariant [OF assms(2)]
    by (simp add: bind_split split: option.split)
  ultimately show ?thesis
    using assms(3) by (auto simp: GetNode_absent Let_def TomlNode_new_def split: option.splits)
qed

definition sample_table :: "(string \<times> unit toml_node) list" where
  "sample_table =
     [(''server'', toml_table [(''num_workers'', toml_integer 4), (''port'', toml_integer 6667),
                              (''started'', toml_other)]),
      (''motd'', toml_array [toml_string ''hi''])]"

definition sample_parse :: "string \<Rightarrow> (string \<times> unit toml_node) list option" where
  "sample_parse str = (if str = [] then None else Some sample_table)"

lemmas sample_defs = sample_table_def sample_parse_def TomlConfig_Create_def TomlConfig_new_def
  Reload_def TomlValue_Create_def GetNode_def Dig_def AsMap_def TomlMap_Get_def lhm_emplace_def
  TomlNode_new_def

theorem GetNode_document_witness:
  "\<exists>a cfg'. GetNode (ConfigPath [''server'', ''port''])
       (TomlConfig_Create sample_parse (Inr ''x'') :: (unit, unit) TomlConfig) = (Some a, cfg')
     \<and> tc_heap cfg' a = Some \<lparr>tn_path = ConfigPath [''server'', ''port''],
          tn_value = VInt64 6667, tn_callbacks = []\<rparr>"
proof -
  let ?path = "ConfigPath [''server'', ''port'']"
  let ?cfg = "TomlConfig_Create sample_parse (Inr ''x'') :: (unit, unit) TomlConfig"
  have "sample_parse ''x'' = Some sample_table" "toml_wf (toml_table sample_table)"
    by (simp_all add: sample_parse_def sample_table_def)
  from GetNode_document [where toml_parse = sample_parse and str = "''x''", OF this
      surjective_pairing [of "GetNode ?path ?cfg"]]
  obtain a where "fst (GetNode ?path ?cfg) = Some a"
    "tc_heap (snd (GetNode ?path ?cfg)) a
       = Some \<lparr>tn_path = ?path, tn_value = VInt64 6667, tn_callbacks = []\<rparr>"
    by (auto simp: sample_table_def)
  then show ?thesis by (metis prod.collapse)
qed



text \<open>
  Subscribing any sequence of callbacks to a node and notifying it calls each of them
  once, in the order of subscription, with the node's path and value; a list node ignores
  both.
\<close>

theorem subscribe_then_notify:
  "TomlNode_Notify call (fold TomlNode_Subscribe callbacks (TomlNode_new path val)) w =
     (if AsArray val = None then fold (\<lambda>callback. call callback path val) callbacks w else w)"
  by (simp add: TomlNode_Notify_def TomlNode_new_def fold_Subscribe)

end
