(* ===== verification/Server_Config.thy ===== *)
theory Server_Config
  imports Toml_Config
begin

text \<open>
  The server's settings: \<open>IServerConfig\<close> of \<open>server/Server.h\<close> and the anonymous
  namespace of \<open>server/Server.cc\<close>. Integers keep their widths: \<open>unsigned int\<close> is a
  \<open>32 word\<close>, \<open>uint16_t\<close> a \<open>16 word\<close>, and a conversion from \<open>int64_t\<close> keeps the low bits.
  A \<open>config_api\<close> is the virtual interface \<open>IConfig\<close>/\<open>IConfigNode\<close> as the server calls it;
  \<open>toml_config_api\<close> is its implementation by \<open>TomlConfig\<close>.
\<close>

section \<open>Settings\<close>

record ServerConfigData =
  NumWorkers :: "32 word"
  Port :: "16 word"
  TlsPort :: "16 word"

definition int64_or_zero :: "'d TomlValue \<Rightarrow> 64 word" where
  "int64_or_zero v = (case AsInt64 v of None \<Rightarrow> 0 | Some i \<Rightarrow> i)"

definition ParseServerConfigFromValue :: "'d TomlValue option \<Rightarrow> ServerConfigData option" where
  "ParseServerConfigFromValue val =
     (case val of
        None \<Rightarrow> None
      | Some v \<Rightarrow>
          (case AsMap v of
             None \<Rightarrow> None
           | Some mp \<Rightarrow>
               (let numWorkersValue = TomlMap_Get mp ''num_workers'';
                    portValue = TomlMap_Get mp ''port'';
                    tlsPortValue = TomlMap_Get mp ''tls_port'';
                    data = \<lparr>NumWorkers = 0, Port = 0, TlsPort = 0\<rparr>;
                    data = (case numWorkersValue of
                              None \<Rightarrow> data
                            | Some x \<Rightarrow> data\<lparr>NumWorkers := ucast (int64_or_zero x)\<rparr>);
                    data = (case portValue of
                              None \<Rightarrow> data
                            | Some x \<Rightarrow> data\<lparr>Port := ucast (int64_or_zero x)\<rparr>);
                    data = (case tlsPortValue of
                              None \<Rightarrow> data
                            | Some x \<Rightarrow> data\<lparr>TlsPort := ucast (int64_or_zero x)\<rparr>)
                in Some data)))"

section \<open>The configuration object\<close>

text \<open>
  The object subscribes a callback that holds a weak pointer to it. \<open>None\<close> is the empty
  weak pointer, \<open>Some a\<close> refers to the object at address \<open>a\<close>.
\<close>

datatype config_callback = ServerConfigCallback (weakSelf: "addr option")

record 'n ServerConfig =
  m_serverConfigNode :: 'n
  m_data :: ServerConfigData

record ('s, 'n, 'd) config_api =
  api_GetNode :: "ConfigPath \<Rightarrow> 's \<Rightarrow> 'n option \<times> 's"
  api_GetValue :: "'n \<Rightarrow> 's \<Rightarrow> 'd TomlValue option"
  api_Subscribe :: "'n \<Rightarrow> config_callback \<Rightarrow> 's \<Rightarrow> 's"

text \<open>
  The constructor. \<open>weak_from_this()\<close> is called while \<open>make_shared\<close> is still
  constructing the object, when no \<open>shared_ptr\<close> owns it yet, and so gives an empty
  pointer.
\<close>

definition weak_from_this_in_constructor :: "addr option" where
  "weak_from_this_in_constructor = None"

definition ServerConfig_new ::
  "('s, 'n, 'd) config_api \<Rightarrow> 'n \<Rightarrow> ServerConfigData \<Rightarrow> 's \<Rightarrow> 'n ServerConfig \<times> 's" where
  "ServerConfig_new api node data st =
     (\<lparr>m_serverConfigNode = node, m_data = data\<rparr>,
      api_Subscribe api node (ServerConfigCallback weak_from_this_in_constructor) st)"

definition GetNumWorkers :: "'n ServerConfig \<Rightarrow> 32 word" where
  "GetNumWorkers self = NumWorkers (m_data self)"

definition GetPort :: "'n ServerConfig \<Rightarrow> 16 word" where
  "GetPort self = Port (m_data self)"

definition GetTlsPort :: "'n ServerConfig \<Rightarrow> 16 word" where
  "GetTlsPort self = TlsPort (m_data self)"

definition OnConfigChanged ::
  "ConfigPath \<Rightarrow> 'd TomlValue option \<Rightarrow> 'n ServerConfig \<Rightarrow> 'n ServerConfig" where
  "OnConfigChanged path val self =
     (if val = None then self
      else case ParseServerConfigFromValue val of
             None \<Rightarrow> self
           | Some new \<Rightarrow>
               (let data = (if NumWorkers new > 0 then (m_data self)\<lparr>NumWorkers := NumWorkers new\<rparr>
                            else m_data self)
                in self\<lparr>m_data := data\<lparr>Port := Port new, TlsPort := TlsPort new\<rparr>\<rparr>))"

text \<open>The lambda: \<open>objs\<close> are the live \<open>ServerConfig\<close> objects.\<close>

definition config_callback_run ::
  "config_callback \<Rightarrow> ConfigPath \<Rightarrow> 'd TomlValue
     \<Rightarrow> (addr \<rightharpoonup> 'n ServerConfig) \<Rightarrow> (addr \<rightharpoonup> 'n ServerConfig)" where
  "config_callback_run callback path val objs =
     (case weakSelf callback of
        None \<Rightarrow> objs
      | Some a \<Rightarrow>
          (case objs a of
             None \<Rightarrow> objs
           | Some self \<Rightarrow> objs(a \<mapsto> OnConfigChanged path (Some val) self)))"

text \<open>\<open>IServerConfig::Create\<close>; the first argument is the null test of \<open>config\<close>.\<close>

definition IServerConfig_Create ::
  "strings_api \<Rightarrow> ('s, 'n, 'd) config_api \<Rightarrow> 's option
     \<Rightarrow> 'n ServerConfig status_or \<times> 's option" where
  "IServerConfig_Create str api config =
     (case config of
        None \<Rightarrow> (Inl (InvalidArgumentError ''config node missing''), None)
      | Some cfg \<Rightarrow>
          (case api_GetNode api (ConfigPath_of_string str ''server'') cfg of
             (None, cfg) \<Rightarrow> (Inl (InvalidArgumentError ''config missing server section''), Some cfg)
           | (Some serverSection, cfg) \<Rightarrow>
               (case api_GetValue api serverSection cfg of
                  None \<Rightarrow>
                    (Inl (InvalidArgumentError ''config server section has no value''), Some cfg)
                | Some val \<Rightarrow>
                    (case ParseServerConfigFromValue (Some val) of
                       None \<Rightarrow>
                         (Inl (InvalidArgumentError
                                 ''config server section missing required data''), Some cfg)
                     | Some configData \<Rightarrow>
                         (case ServerConfig_new api serverSection configData cfg of
                            (self, cfg) \<Rightarrow> (Inr self, Some cfg))))))"

definition TomlNode_GetValue :: "addr \<Rightarrow> ('d, 'cb) TomlConfig \<Rightarrow> 'd TomlValue option" where
  "TomlNode_GetValue a cfg = map_option tn_value (tc_heap cfg a)"

definition toml_config_api :: "(('d, config_callback) TomlConfig, addr, 'd) config_api" where
  "toml_config_api =
     \<lparr>api_GetNode = GetNode, api_GetValue = TomlNode_GetValue, api_Subscribe = node_subscribed\<rparr>"

section \<open>Widths\<close>

text \<open>Narrowing an \<open>int64_t\<close> keeps its value modulo the width, whatever its sign.\<close>

lemma uint_narrow:
  fixes w :: "64 word"
  assumes "LENGTH('a::len) \<le> 64"
  shows "uint (ucast w :: 'a word) = sint w mod 2 ^ LENGTH('a)"
proof -
  have "take_bit LENGTH('a) (sint w) = take_bit LENGTH('a) (take_bit 64 (sint w))"
    using assms by (simp add: min_absorb1)
  also have "take_bit 64 (sint w) = uint w"
    using uint_sint [of w] by simp
  finally show ?thesis by (simp add: unsigned_ucast_eq take_bit_eq_mod)
qed

text \<open>A setting of the section, zero when it is absent or no integer.\<close>

definition setting :: "'d TomlMap \<Rightarrow> string \<Rightarrow> 64 word" where
  "setting mp key = (case map_of mp key of Some (VInt64 i) \<Rightarrow> i | _ \<Rightarrow> 0)"

lemma setting_eq: "setting mp key = (case TomlMap_Get mp key of None \<Rightarrow> 0 | Some v \<Rightarrow> int64_or_zero v)"
  by (simp add: setting_def TomlMap_Get_def int64_or_zero_def value_accessors split: option.split TomlValue.split)

lemma Parse_VMap:
  "ParseServerConfigFromValue (Some (VMap mp)) =
     Some \<lparr>NumWorkers = ucast (setting mp ''num_workers''), Port = ucast (setting mp ''port''),
           TlsPort = ucast (setting mp ''tls_port'')\<rparr>"
  by (simp add: ParseServerConfigFromValue_def AsMap_def setting_eq Let_def split: option.split)

lemma Parse_null [simp]: "ParseServerConfigFromValue None = None"
  by (simp add: ParseServerConfigFromValue_def)

lemma Parse_None_iff:
  "ParseServerConfigFromValue (Some v) = None \<longleftrightarrow> AsMap v = None"
  by (simp add: ParseServerConfigFromValue_def Let_def split: option.split)

section \<open>The interface to the configuration\<close>

text \<open>What \<open>IServerConfig::Create\<close> relies on: a node that is handed out bears a value, is
  handed out again for the same path, and subscribing to it changes no value.\<close>

locale config_provider =
  fixes get :: "ConfigPath \<Rightarrow> 's \<Rightarrow> 'n option \<times> 's"
    and val :: "'n \<Rightarrow> 's \<Rightarrow> 'd TomlValue option"
    and sub :: "'n \<Rightarrow> config_callback \<Rightarrow> 's \<Rightarrow> 's"
    and invar :: "'s \<Rightarrow> bool"
  assumes invar_get: "invar st \<Longrightarrow> get path st = (res, st') \<Longrightarrow> invar st'"
    and invar_sub: "invar st \<Longrightarrow> invar (sub n cb st)"
    and get_val: "invar st \<Longrightarrow> get path st = (Some n, st') \<Longrightarrow> val n st' \<noteq> None"
    and get_again: "invar st \<Longrightarrow> get path st = (Some n, st') \<Longrightarrow> get path (sub m cb st') = (Some n, sub m cb st')"
    and val_sub: "val n (sub m cb st) = val n st"
begin

abbreviation client_api :: "('s, 'n, 'd) config_api" where
  "client_api \<equiv> \<lparr>api_GetNode = get, api_GetValue = val, api_Subscribe = sub\<rparr>"

text \<open>The section's value decides the outcome; the error for a node without value is
  impossible.\<close>

lemma create_outcome:
  assumes "invar st" and "get (ConfigPath_of_string str ''server'') st = (res, st1)"
  shows "IServerConfig_Create str client_api (Some st) =
    (case res of
       None \<Rightarrow> (Inl (InvalidArgumentError ''config missing server section''), Some st1)
     | Some n \<Rightarrow>
         (case ParseServerConfigFromValue (val n st1) of
            None \<Rightarrow> (Inl (InvalidArgumentError ''config server section missing required data''), Some st1)
          | Some data \<Rightarrow> (Inr \<lparr>m_serverConfigNode = n, m_data = data\<rparr>,
                          Some (sub n (ServerConfigCallback None) st1))))"
  using assms get_val [OF assms(1), of "ConfigPath_of_string str ''server''" _ st1]
  by (auto simp: IServerConfig_Create_def ServerConfig_new_def weak_from_this_in_constructor_def
      split: option.splits)

text \<open>Creating the settings twice gives equal settings.\<close>

lemma create_again:
  assumes "invar st" and "IServerConfig_Create str client_api (Some st) = (Inr self, Some st1)"
  shows "fst (IServerConfig_Create str client_api (Some st1)) = Inr self"
proof -
  obtain res st0 where g: "get (ConfigPath_of_string str ''server'') st = (res, st0)"
    by (metis surj_pair)
  from assms(2) create_outcome [OF assms(1) g] obtain n where n: "res = Some n"
    and self: "ParseServerConfigFromValue (val n st0) = Some (m_data self)" "m_serverConfigNode self = n"
    and st1: "st1 = sub n (ServerConfigCallback None) st0"
    by (auto split: option.splits)
  have "get (ConfigPath_of_string str ''server'') st1 = (Some n, st1)"
    unfolding st1 using get_again [OF assms(1)] g n by blast
  moreover have "invar st1" unfolding st1 using invar_sub invar_get [OF assms(1) g] by blast
  ultimately show ?thesis using create_outcome [of st1 str "Some n" st1] self
    by (simp add: st1 val_sub)
qed

end

lemma node_subscribed_tc_heap:
  "tc_heap (node_subscribed b cb cfg) a =
     (if a = b then map_option (TomlNode_Subscribe cb) (tc_heap cfg a) else tc_heap cfg a)"
  by (simp add: node_subscribed_def)

lemma tn_value_Subscribe [simp]: "tn_value (TomlNode_Subscribe cb node) = tn_value node"
  by (simp add: TomlNode_Subscribe_def)

lemma GetNode_again:
  assumes "cache_inv cfg" and "GetNode path cfg = (Some a, cfg')"
  shows "GetNode path (node_subscribed b cb cfg') = (Some a, node_subscribed b cb cfg')"
proof -
  have "cache_inv cfg'" using GetNode_inv assms by blast
  moreover obtain node where "tc_heap cfg' a = Some node" "tn_path node = path"
    using GetNode_result assms by blast
  ultimately have "live_node path (node_subscribed b cb cfg') = Some a"
    using live_node_iff [of "node_subscribed b cb cfg'" path a] by (auto simp: node_subscribed_tc_heap)
  then show ?thesis by (rule GetNode_live)
qed

interpretation toml: config_provider GetNode TomlNode_GetValue node_subscribed cache_inv
proof unfold_locales
  fix st st' :: "('d, config_callback) TomlConfig" and path n cb
  assume "cache_inv st" "GetNode path st = (Some n, st')"
  then show "TomlNode_GetValue n st' \<noteq> None"
    using GetNode_result by (fastforce simp: TomlNode_GetValue_def)
qed (auto simp: TomlNode_GetValue_def node_subscribed_tc_heap option.map_comp comp_def
    intro: GetNode_inv GetNode_again)

section \<open>Properties\<close>

text \<open>The integer a TOML table has under a key, zero when there is none.\<close>

definition doc_int :: "(string \<times> 'd toml_node) list \<Rightarrow> string \<Rightarrow> int" where
  "doc_int tbl key = (case map_of tbl key of Some (toml_integer i) \<Rightarrow> sint i | _ \<Rightarrow> 0)"

lemma setting_TomlMap_Create:
  assumes "distinct (map fst tbl)"
  shows "sint (setting (TomlMap_Create tbl []) key) = doc_int tbl key"
proof -
  have "map_of (TomlMap_Create tbl []) key
      = (case map_of tbl key of None \<Rightarrow> None | Some n \<Rightarrow> NodeToVariant n)"
    using map_of_TomlMap_Create [OF assms, of "[]" key] by simp
  then show ?thesis
    by (simp add: setting_def doc_int_def split: option.split toml_node.split)
qed

lemma Create_on_document:
  assumes "strings_ok str" and "toml_parse contents = Some tbl" and "toml_wf (toml_table tbl)"
    and "cfg = TomlConfig_Create toml_parse (Inr contents)"
  shows "fst (IServerConfig_Create str toml_config_api (Some cfg)) =
    (case Option.bind (map_of tbl ''server'') NodeToVariant of
       None \<Rightarrow> Inl (InvalidArgumentError ''config missing server section'')
     | Some v \<Rightarrow>
         (case ParseServerConfigFromValue (Some v) of
            None \<Rightarrow> Inl (InvalidArgumentError ''config server section missing required data'')
          | Some data \<Rightarrow> Inr \<lparr>m_serverConfigNode = 0, m_data = data\<rparr>))"
proof -
  let ?path = "ConfigPath_of_string str ''server''"
  have path: "m_path ?path = [''server'']" using assms(1) by (simp add: of_string_eq)
  have root: "m_root cfg = Some (VMap (TomlMap_Create tbl []))"
    using assms(2,4) by (simp add: TomlConfig_Create_def Reload_def TomlValue_Create_def)
  have "Dig (m_root cfg) ?path = Option.bind (map_of tbl ''server'') NodeToVariant"
    using Dig_loop_NodeToVariant [OF assms(3), of "VMap (TomlMap_Create tbl [])" "[''server'']"]
    unfolding root Dig_def path by (simp add: bind_split split: option.split)
  moreover have "live_node ?path cfg = None" "tc_next cfg = 0" "tc_heap cfg = Map.empty" "cache_inv cfg"
    using assms(4) by (simp_all add: live_node_def TomlConfig_Create_def TomlConfig_new_def [symmetric])
      (simp_all add: TomlConfig_new_def)
  ultimately show ?thesis
    using toml.create_outcome [where st = cfg and str = str, OF _ GetNode_absent [THEN trans]]
    unfolding toml_config_api_def
    by (auto simp: Let_def TomlNode_GetValue_def TomlNode_new_def split: option.splits)
qed

text \<open>The two halves of a successful start: the document was read and parsed, and it has a
  table under \<open>server\<close>.\<close>

lemma Create_on_empty:
  "fst (IServerConfig_Create str toml_config_api (Some TomlConfig_new)) =
     Inl (InvalidArgumentError ''config missing server section'')"
  by (simp add: IServerConfig_Create_def toml_config_api_def GetNode_def TomlConfig_new_def Dig_def Let_def)

lemma Create_reads_document:
  assumes "fst (IServerConfig_Create str toml_config_api (Some (TomlConfig_Create toml_parse contents)))
      = Inr self"
  obtains doc tbl where "contents = Inr doc" "toml_parse doc = Some tbl"
  using assms
  by (auto simp: Create_on_empty TomlConfig_Create_def Reload_def split: sum.splits option.splits)

lemma Create_on_table:
  assumes "strings_ok str" and "toml_parse contents = Some tbl" and "toml_wf (toml_table tbl)"
    and "fst (IServerConfig_Create str toml_config_api
            (Some (TomlConfig_Create toml_parse (Inr contents)))) = Inr self"
  obtains srv where "map_of tbl ''server'' = Some (toml_table srv)"
    and "uint (GetNumWorkers self) = doc_int srv ''num_workers'' mod 2 ^ 32"
    and "uint (GetPort self) = doc_int srv ''port'' mod 2 ^ 16"
    and "uint (GetTlsPort self) = doc_int srv ''tls_port'' mod 2 ^ 16"
proof -
  note created = Create_on_document [where toml_parse = toml_parse and contents = contents,
      OF assms(1-3) refl, unfolded assms(4)]
  obtain n where n: "map_of tbl ''server'' = Some n"
    using created by (cases "map_of tbl ''server''") simp_all
  then obtain srv where srv: "n = toml_table srv"
    using created by (cases n) (simp_all add: ParseServerConfigFromValue_def AsMap_def)
  with n assms(3) have "distinct (map fst srv)" by (auto dest!: map_of_SomeD)
  then show ?thesis using that n srv created
    by (simp add: Parse_VMap GetNumWorkers_def GetPort_def GetTlsPort_def uint_narrow
        setting_TomlMap_Create)
qed

text \<open>
  C24. Starting from a TOML document, the server gets settings exactly when the document
  has a table under \<open>server\<close>, and then the ports and the number of workers are the
  document's integers modulo their widths (absent or ill-typed entries count as zero).
  Without a convertible entry the section is reported missing, with one that is no table
  its data is.
\<close>

theorem server_config_from_document:
  assumes "strings_ok str" and "toml_parse contents = Some tbl" and "toml_wf (toml_table tbl)"
  shows "case (map_of tbl ''server'',
      fst (IServerConfig_Create str toml_config_api
        (Some (TomlConfig_Create toml_parse (Inr contents))))) of
      (None, r) \<Rightarrow> r = Inl (InvalidArgumentError ''config missing server section'')
    | (Some (toml_table srv), Inr self) \<Rightarrow>
        uint (GetNumWorkers self) = doc_int srv ''num_workers'' mod 2 ^ 32
        \<and> uint (GetPort self) = doc_int srv ''port'' mod 2 ^ 16
        \<and> uint (GetTlsPort self) = doc_int srv ''tls_port'' mod 2 ^ 16
    | (Some (toml_table srv), Inl e) \<Rightarrow> False
    | (Some toml_other, r) \<Rightarrow> r = Inl (InvalidArgumentError ''config missing server section'')
    | (Some n, r) \<Rightarrow> r = Inl (InvalidArgumentError ''config server section missing required data'')"
proof -
  note created = Create_on_document [where toml_parse = toml_parse and contents = contents,
      OF assms refl]
  show ?thesis
  proof (cases "map_of tbl ''server''")
    case (Some n)
    show ?thesis
    proof (cases n)
      case (toml_table srv)
      with Some assms(3) have "distinct (map fst srv)" by (auto dest!: map_of_SomeD)
      then show ?thesis using created Some toml_table
        by (simp add: Parse_VMap GetNumWorkers_def GetPort_def GetTlsPort_def
            uint_narrow setting_TomlMap_Create)
    qed (use created Some in \<open>simp_all add: ParseServerConfigFromValue_def AsMap_def\<close>)
  qed (use created in simp)
qed

theorem server_config_from_document_witness:
  "\<exists>self. fst (IServerConfig_Create ref_strings toml_config_api
       (Some (TomlConfig_Create sample_parse (Inr ''x'')))) = Inr self
     \<and> uint (GetPort self) = 6667 \<and> uint (GetNumWorkers self) = 4"
proof -
  have "sample_parse ''x'' = Some sample_table" "toml_wf (toml_table sample_table)"
    by (simp_all add: sample_parse_def sample_table_def)
  from server_config_from_document [where toml_parse = sample_parse and contents = "''x''",
      OF ref_strings_ok this]
  show ?thesis
    by (auto simp: sample_table_def doc_int_def split: sum.splits)
qed

text \<open>
  A sequence of change notifications leaves the ports of the last well-formed value,
  and the number of workers of the last well-formed value in which it is positive; ill-formed
  and null values are ignored.
\<close>

theorem config_changes_last_wins:
  "m_data (fold (OnConfigChanged path) vals self) =
     (let good = List.map_filter ParseServerConfigFromValue vals
      in \<lparr>NumWorkers = last (NumWorkers (m_data self) # filter (\<lambda>n. 0 < n) (map NumWorkers good)),
          Port = last (Port (m_data self) # map Port good),
          TlsPort = last (TlsPort (m_data self) # map TlsPort good)\<rparr>)"
proof (induction vals arbitrary: self)
  case (Cons v vals)
  then show ?case
    by (auto simp: OnConfigChanged_def Let_def map_filter_simps split: option.split)
qed (simp add: map_filter_simps)

text \<open>
  The settings object never learns of a change: whatever settings objects are alive,
  notifying the node it subscribed to leaves all of them as they are, because the pointer
  in its callback is empty.
\<close>

theorem server_config_updates_lost:
  assumes "IServerConfig_Create str toml_config_api (Some (TomlConfig_Create toml_parse contents))
      = (Inr self, Some cfg)"
  shows "\<exists>node. tc_heap cfg (m_serverConfigNode self) = Some node
    \<and> tn_callbacks node = [ServerConfigCallback None]
    \<and> TomlNode_Notify config_callback_run node objs = objs"
proof -
  let ?cfg0 = "TomlConfig_Create toml_parse contents :: ('a, config_callback) TomlConfig"
  let ?path = "ConfigPath_of_string str ''server''"
  have fresh: "live_node ?path ?cfg0 = None" "cache_inv ?cfg0"
    by (simp_all add: live_node_def TomlConfig_Create_def) (simp add: TomlConfig_new_def)
  obtain v where v: "Dig (m_root ?cfg0) ?path = Some v" "AsMap v \<noteq> None"
    and self: "m_serverConfigNode self = tc_next ?cfg0"
    and node: "tc_heap cfg (tc_next ?cfg0)
      = Some (TomlNode_Subscribe (ServerConfigCallback None) (TomlNode_new ?path v))"
    using assms toml.create_outcome [OF fresh(2) surjective_pairing, of str]
    unfolding toml_config_api_def GetNode_absent [OF fresh(1)]
    by (auto simp: Let_def TomlNode_GetValue_def TomlNode_new_def node_subscribed_tc_heap
        Parse_None_iff [symmetric] split: option.splits)
  from v(2) have "AsArray v = None" by (auto simp: value_accessors split: TomlValue.splits)
  with self node show ?thesis
    by (simp add: TomlNode_Subscribe_def TomlNode_new_def TomlNode_Notify_def config_callback_run_def)
qed

theorem server_config_updates_lost_witness:
  "\<exists>self cfg node. IServerConfig_Create ref_strings toml_config_api
       (Some (TomlConfig_Create sample_parse (Inr ''x''))) = (Inr self, Some cfg)
     \<and> tc_heap cfg (m_serverConfigNode self) = Some node
     \<and> TomlNode_Notify config_callback_run node [0 \<mapsto> self] = [0 \<mapsto> self]"
proof -
  let ?r = "IServerConfig_Create ref_strings toml_config_api
       (Some (TomlConfig_Create sample_parse (Inr ''x'')))"
  obtain self cfg where "?r = (Inr self, Some cfg)"
    by (simp add: IServerConfig_Create_def toml_config_api_def ServerConfig_new_def
        ParseServerConfigFromValue_def TomlNode_GetValue_def sample_defs of_string_eq)
  with server_config_updates_lost [OF this, of "[0 \<mapsto> self]"] show ?thesis by blast
qed

end
