(* ===== verification/Irc_Server.thy ===== *)
theory Irc_Server
  imports Asio_Connection Server_Config
begin

text \<open>
  The server object of \<open>server/Server.cc\<close>: accepting connections, signals, shutdown.

  Connections are shared between the map \<open>m_connections\<close> and their own coroutines, so they
  live in \<open>s_heap\<close> and the map holds their addresses; an object stays in the heap after its
  last owner is gone, when nothing can reach it. Work waits in two kinds of queues: each
  connection's strand (\<open>s_tasks\<close>, first in first out), and the server's strand, of which
  only the handlers that erase a connection matter (\<open>s_strand\<close>). Everything between two
  suspension points is one step.

  \<open>asio::dispatch\<close> runs its handler at once when the calling thread is already on the
  strand; from another strand it may also run at once when the target strand is idle, or
  queue it. Which of the two happens while signals are handled is the argument
  \<open>run_now\<close>.
\<close>

section \<open>State\<close>

text \<open>The only observer the server registers is itself.\<close>

datatype conn_observer = ServerObserver

datatype conn_task = TaskAddObserver | TaskOnConnected | TaskClose

datatype loop_state = LoopIdle | LoopWaiting | LoopReturned

record 'q Server =
  srv_config :: "addr ServerConfig"
  m_signals :: "int list"
  m_acceptor_open :: bool
  m_workers :: nat
  m_draining :: bool
  m_nextConnId :: ConnId
  m_connections :: "(ConnId \<times> addr) list"
  s_heap :: "(conn_observer, 'q) AsioConnection list"
  s_tasks :: "addr \<Rightarrow> conn_task list"
  s_strand :: "ConnId list"
  s_accept :: loop_state
  s_signal :: loop_state

datatype server_fault = ConnFault conn_fault | IteratorInvalidated | SystemError

definition Server_new :: "addr ServerConfig \<Rightarrow> 'q Server" where
  "Server_new config =
     \<lparr>srv_config = config, m_signals = [], m_acceptor_open = False, m_workers = 0,
      m_draining = False, m_nextConnId = 1, m_connections = [], s_heap = [],
      s_tasks = (\<lambda>_. []), s_strand = [], s_accept = LoopIdle, s_signal = LoopIdle\<rparr>"

definition SIGHUP :: int where "SIGHUP = 1"
definition SIGINT :: int where "SIGINT = 2"
definition SIGTERM :: int where "SIGTERM = 15"

definition kTerminalSignals :: "int list" where
  "kTerminalSignals = [SIGINT, SIGTERM]"

definition kReloadSignals :: "int list" where
  "kReloadSignals = [SIGHUP]"

section \<open>Starting\<close>

text \<open>
  \<open>ServeForever\<close> up to the joins: \<open>listen_ok\<close> tells whether opening, binding and
  listening on the port succeed; otherwise asio throws. The loops are spawned on the
  strand, and one worker thread is started per configured worker.
\<close>

definition ServeForever :: "(16 word \<Rightarrow> bool) \<Rightarrow> 'q Server \<Rightarrow> server_fault + 'q Server" where
  "ServeForever listen_ok s =
     (let s = s\<lparr>m_signals := m_signals s @ kReloadSignals @ kTerminalSignals\<rparr>;
          listenPort = GetPort (srv_config s)
      in if \<not> listen_ok listenPort then Inl SystemError
         else Inr (s\<lparr>m_acceptor_open := True, s_signal := LoopWaiting, s_accept := LoopWaiting,
                     m_workers := m_workers s + unat (GetNumWorkers (srv_config s))\<rparr>))"

text \<open>The destructor; stopping the \<open>io_context\<close> makes every worker return.\<close>

definition Server_destroy :: "'q Server \<Rightarrow> 'q Server" where
  "Server_destroy s = s\<lparr>m_signals := [], m_acceptor_open := False, m_workers := 0\<rparr>"

section \<open>Observer callbacks\<close>

definition Server_OnMessage :: "ConnId \<Rightarrow> Message \<Rightarrow> 'q Server \<Rightarrow> 'q Server" where
  "Server_OnMessage connId msg s = s"

definition Server_OnError :: "ConnId \<Rightarrow> status \<Rightarrow> 'q Server \<Rightarrow> 'q Server" where
  "Server_OnError connId st s = s"

text \<open>\<open>OnDisconnect\<close> sends the erasure to the server's strand; it runs at once when the
  caller is on that strand.\<close>

definition erase_connection :: "ConnId \<Rightarrow> 'q Server \<Rightarrow> 'q Server" where
  "erase_connection connId s = s\<lparr>m_connections := AList.delete connId (m_connections s)\<rparr>"

definition Server_OnDisconnect :: "bool \<Rightarrow> ConnId \<Rightarrow> 'q Server \<Rightarrow> 'q Server" where
  "Server_OnDisconnect on_strand connId s =
     (if on_strand then erase_connection connId s else s\<lparr>s_strand := s_strand s @ [connId]\<rparr>)"

definition Server_event :: "bool \<Rightarrow> conn_event \<Rightarrow> 'q Server \<Rightarrow> 'q Server" where
  "Server_event on_strand ev s =
     (case ev of
        OnMessage connId msg \<Rightarrow> Server_OnMessage connId msg s
      | OnError connId st \<Rightarrow> Server_OnError connId st s
      | OnDisconnect connId \<Rightarrow> Server_OnDisconnect on_strand connId s)"

text \<open>
  A handler of the connection at \<open>a\<close> has run and left it as \<open>conn'\<close>: the callbacks it made
  are the events added to its log.
\<close>

definition conn_ran ::
  "bool \<Rightarrow> addr \<Rightarrow> (conn_observer, 'q) AsioConnection \<Rightarrow> 'q Server \<Rightarrow> 'q Server" where
  "conn_ran on_strand a conn' s =
     fold (\<lambda>(ob, ev). Server_event on_strand ev)
       (drop (length (c_log (s_heap s ! a))) (c_log conn'))
       (s\<lparr>s_heap := (s_heap s)[a := conn']\<rparr>)"

section \<open>Accepting\<close>

datatype accept_result = AcceptAborted | AcceptFailed | Accepted

text \<open>
  What follows the completion of an accept. \<open>queue\<close> is the new connection's empty write
  queue. \<open>AddObserver\<close> and \<open>OnConnected\<close> post to the connection's strand.
\<close>

definition AcceptConnections_turn :: "'q \<Rightarrow> accept_result \<Rightarrow> 'q Server \<Rightarrow> 'q Server" where
  "AcceptConnections_turn queue res s =
     (case res of
        AcceptAborted \<Rightarrow> s\<lparr>s_accept := LoopReturned\<rparr>
      | AcceptFailed \<Rightarrow> s\<lparr>s_accept := LoopReturned\<rparr>
      | Accepted \<Rightarrow>
          if m_draining s then s\<lparr>s_accept := LoopReturned\<rparr>
          else
            (let connId = m_nextConnId s; a = length (s_heap s);
                 s = s\<lparr>m_nextConnId := connId + 1,
                       s_heap := s_heap s @ [AsioConnection_new connId queue],
                       m_connections := lhm_emplace connId a (m_connections s)\<rparr>;
                 s = s\<lparr>s_tasks := (s_tasks s)(a := s_tasks s a @ [TaskAddObserver])\<rparr>;
                 s = s\<lparr>s_tasks := (s_tasks s)(a := s_tasks s a @ [TaskOnConnected])\<rparr>
             in if m_draining s then s\<lparr>s_accept := LoopReturned\<rparr> else s))"

section \<open>Signals\<close>

text \<open>
  The loop that closes every live connection. When \<open>Close\<close> runs at once and reports the
  disconnect, the callback erases the entry the loop stands on, and advancing from there is
  undefined.
\<close>

fun close_all ::
  "'q channel_api \<Rightarrow> (addr \<Rightarrow> bool) \<Rightarrow> (ConnId \<times> addr) list \<Rightarrow> 'q Server
     \<Rightarrow> server_fault + 'q Server" where
  "close_all api run_now [] s = Inr s"
| "close_all api run_now ((connId, a) # rest) s =
     (if run_now a \<and> s_tasks s a = []
      then (case Close api (\<lambda>_. True) (s_heap s ! a) of
              Inl fault \<Rightarrow> Inl (ConnFault fault)
            | Inr conn' \<Rightarrow>
                (let s' = conn_ran True a conn' s in
                   if m_connections s' \<noteq> m_connections s then Inl IteratorInvalidated
                   else close_all api run_now rest s'))
      else close_all api run_now rest
             (s\<lparr>s_tasks := (s_tasks s)(a := s_tasks s a @ [TaskClose])\<rparr>))"

datatype signal_result = SignalAborted | SignalFailed | Signal int

definition HandleSignals_turn ::
  "'q channel_api \<Rightarrow> (addr \<Rightarrow> bool) \<Rightarrow> signal_result \<Rightarrow> 'q Server \<Rightarrow> server_fault + 'q Server" where
  "HandleSignals_turn api run_now res s =
     (case res of
        SignalAborted \<Rightarrow> Inr (s\<lparr>s_signal := LoopReturned\<rparr>)
      | SignalFailed \<Rightarrow> Inr (s\<lparr>s_signal := LoopReturned\<rparr>)
      | Signal sig \<Rightarrow>
          if sig \<in> set kReloadSignals
          then Inr (if m_draining s then s\<lparr>s_signal := LoopReturned\<rparr> else s)
          else if sig \<in> set kTerminalSignals
          then (let s = s\<lparr>m_draining := True, m_acceptor_open := False\<rparr> in
                  case close_all api run_now (m_connections s) s of
                    Inl fault \<Rightarrow> Inl fault
                  | Inr s \<Rightarrow> Inr (s\<lparr>s_signal := LoopReturned\<rparr>))
          else Inr (if m_draining s then s\<lparr>s_signal := LoopReturned\<rparr> else s))"

section \<open>Running\<close>

text \<open>The handler at the head of a connection's strand.\<close>

definition run_task ::
  "'q channel_api \<Rightarrow> conn_task \<Rightarrow> (conn_observer, 'q) AsioConnection
     \<Rightarrow> conn_fault + (conn_observer, 'q) AsioConnection" where
  "run_task api task conn =
     (case task of
        TaskAddObserver \<Rightarrow> Inr (conn_AddObserver (\<lambda>_. True) ServerObserver conn)
      | TaskOnConnected \<Rightarrow> Inr (OnConnected conn)
      | TaskClose \<Rightarrow> CloseUnderLock api True (\<lambda>_. True) conn)"

text \<open>
  The steps the worker threads take. The result of an operation a loop waits for is
  arbitrary; in particular an accept may have completed just before the acceptor was closed.
  The server outlives its connections' loops, so its weak pointers are always live.
\<close>

inductive server_step ::
  "parser_env \<Rightarrow> 'q channel_api \<Rightarrow> 'q \<Rightarrow> 'q Server \<Rightarrow> 'q Server \<Rightarrow> bool"
  for env :: parser_env and api :: "'q channel_api" and queue :: 'q where
  accept: "0 < m_workers s \<Longrightarrow> s_accept s = LoopWaiting \<Longrightarrow>
     server_step env api queue s (AcceptConnections_turn queue res s)"
| signal: "0 < m_workers s \<Longrightarrow> s_signal s = LoopWaiting \<Longrightarrow>
     HandleSignals_turn api run_now sig s = Inr s' \<Longrightarrow> server_step env api queue s s'"
| strand: "0 < m_workers s \<Longrightarrow> s_strand s = connId # rest \<Longrightarrow>
     server_step env api queue s (erase_connection connId (s\<lparr>s_strand := rest\<rparr>))"
| task: "0 < m_workers s \<Longrightarrow> a < length (s_heap s) \<Longrightarrow> s_tasks s a = t # ts \<Longrightarrow>
     run_task api t (s_heap s ! a) = Inr conn' \<Longrightarrow>
     server_step env api queue s (conn_ran False a conn' (s\<lparr>s_tasks := (s_tasks s)(a := ts)\<rparr>))"
| read: "0 < m_workers s \<Longrightarrow> a < length (s_heap s) \<Longrightarrow> c_read (s_heap s ! a) = ReadWaiting \<Longrightarrow>
     RunReadLoop_turn env api (\<lambda>_. True) res (s_heap s ! a) = Inr conn' \<Longrightarrow>
     server_step env api queue s (conn_ran False a conn' s)"
| receive: "0 < m_workers s \<Longrightarrow> a < length (s_heap s) \<Longrightarrow> c_write (s_heap s ! a) = WriteWaiting \<Longrightarrow>
     RunWriteLoop_received api (\<lambda>_. True) rcv (s_heap s ! a) = Inr conn' \<Longrightarrow>
     server_step env api queue s (conn_ran False a conn' s)"
| written: "0 < m_workers s \<Longrightarrow> a < length (s_heap s) \<Longrightarrow> c_write (s_heap s ! a) = WriteWriting \<Longrightarrow>
     RunWriteLoop_written api (\<lambda>_. True) wr (s_heap s ! a) = Inr conn' \<Longrightarrow>
     server_step env api queue s (conn_ran False a conn' s)"
| deliver: "a < length (s_heap s) \<Longrightarrow> DeliverResponse api msg (s_heap s ! a) = (r, conn') \<Longrightarrow>
     server_step env api queue s (conn_ran False a conn' s)"

inductive server_reachable ::
  "parser_env \<Rightarrow> 'q channel_api \<Rightarrow> 'q \<Rightarrow> addr ServerConfig \<Rightarrow> 'q Server \<Rightarrow> bool"
  for env :: parser_env and api :: "'q channel_api" and queue :: 'q and config :: "addr ServerConfig" where
  start: "ServeForever listen_ok (Server_new config) = Inr s \<Longrightarrow>
     server_reachable env api queue config s"
| step: "server_reachable env api queue config s \<Longrightarrow> server_step env api queue s s' \<Longrightarrow>
     server_reachable env api queue config s'"

section \<open>Callbacks of a handler\<close>

definition disconnect_ids :: "('o \<times> conn_event) list \<Rightarrow> ConnId list" where
  "disconnect_ids log =
     List.map_filter (\<lambda>(ob, ev). case ev of OnDisconnect connId \<Rightarrow> Some connId | _ \<Rightarrow> None) log"

lemma disconnect_ids_simps [simp]:
  "disconnect_ids [] = []"
  "disconnect_ids ((ob, OnMessage i msg) # log) = disconnect_ids log"
  "disconnect_ids ((ob, OnError i st) # log) = disconnect_ids log"
  "disconnect_ids ((ob, OnDisconnect i) # log) = i # disconnect_ids log"
  by (simp_all add: disconnect_ids_def map_filter_simps)

lemma disconnect_ids_message_events [simp]: "disconnect_ids (message_events connId obs ms) = []"
  by (auto simp: disconnect_ids_def List.map_filter_def filter_empty_conv set_message_events)

lemma disconnect_ids_disconnects [simp]:
  "disconnect_ids (map (\<lambda>ob. (ob, OnDisconnect i)) obs) = replicate (length obs) i"
  by (induction obs) simp_all

lemma fold_Server_event:
  "fold (\<lambda>(ob, ev). Server_event False ev) log s
     = s\<lparr>s_strand := s_strand s @ disconnect_ids log\<rparr>"
  "fold (\<lambda>(ob, ev). Server_event True ev) log s
     = s\<lparr>m_connections := fold AList.delete (disconnect_ids log) (m_connections s)\<rparr>"
  by (induction log arbitrary: s)
    (auto simp: Server_event_def Server_OnMessage_def Server_OnError_def Server_OnDisconnect_def
      erase_connection_def split: conn_event.split)

definition new_events :: "(conn_observer, 'q) AsioConnection \<Rightarrow> (conn_observer, 'q) AsioConnection
     \<Rightarrow> (conn_observer \<times> conn_event) list" where
  "new_events conn conn' = drop (length (c_log conn)) (c_log conn')"

lemma conn_ran_eq:
  "conn_ran False a conn' s =
     s\<lparr>s_heap := (s_heap s)[a := conn'],
       s_strand := s_strand s @ disconnect_ids (new_events (s_heap s ! a) conn')\<rparr>"
  by (simp add: conn_ran_def fold_Server_event new_events_def)

section \<open>Invariant\<close>

definition registered :: "('o, 'q) AsioConnection \<Rightarrow> 'o \<Rightarrow> bool" where
  "registered conn ob \<longleftrightarrow> ob \<in> set (m_observers (c_observable conn))"

text \<open>
  The stages of a connection's strand: the registration of the server comes first, then
  the loops are started, then there are only closes. In the first stage nothing else has
  happened to the connection.
\<close>

definition conn_ready :: "conn_task list \<Rightarrow> (conn_observer, 'q) AsioConnection \<Rightarrow> bool" where
  "conn_ready ts conn \<longleftrightarrow>
     (\<exists>closes. set closes \<subseteq> {TaskClose}
        \<and> (ts = closes \<and> registered conn ServerObserver
           \<or> ts = TaskOnConnected # closes \<and> registered conn ServerObserver
               \<and> c_read conn = ReadIdle \<and> c_write conn = WriteIdle
           \<or> ts = TaskAddObserver # TaskOnConnected # closes \<and> m_socket_open conn
               \<and> c_read conn = ReadIdle \<and> c_write conn = WriteIdle))"

text \<open>
  The map has one entry per identifier and leads to the connection with that identifier; the
  entry of a closed connection is about to be erased; while draining, every connection in
  the map is closed or about to be.
\<close>

definition entry_ok :: "'q Server \<Rightarrow> ConnId \<Rightarrow> addr \<Rightarrow> bool" where
  "entry_ok s connId a \<longleftrightarrow>
     a < length (s_heap s) \<and> m_connId (s_heap s ! a) = connId
     \<and> (m_socket_open (s_heap s ! a) \<or> connId \<in> set (s_strand s))
     \<and> (m_draining s \<longrightarrow> m_socket_open (s_heap s ! a) \<longrightarrow> TaskClose \<in> set (s_tasks s a))"

definition server_inv :: "'q Server \<Rightarrow> bool" where
  "server_inv s \<longleftrightarrow>
     distinct (map fst (m_connections s))
     \<and> (\<forall>(connId, a) \<in> set (m_connections s). entry_ok s connId a)
     \<and> (\<forall>a < length (s_heap s). conn_ready (s_tasks s a) (s_heap s ! a))
     \<and> (\<forall>a \<ge> length (s_heap s). s_tasks s a = [])
     \<and> (m_draining s \<longrightarrow> \<not> m_acceptor_open s \<and> s_signal s = LoopReturned)"

lemma server_invD:
  assumes "server_inv s"
  shows "distinct (map fst (m_connections s))"
    and "(connId, a) \<in> set (m_connections s) \<Longrightarrow> entry_ok s connId a"
    and "a < length (s_heap s) \<Longrightarrow> conn_ready (s_tasks s a) (s_heap s ! a)"
    and "length (s_heap s) \<le> a \<Longrightarrow> s_tasks s a = []"
    and "m_draining s \<Longrightarrow> \<not> m_acceptor_open s \<and> s_signal s = LoopReturned"
  using assms by (auto simp: server_inv_def)

text \<open>A handler of one connection keeps the invariant if it keeps the connection ready,
  reports a close, and does not drop a pending close.\<close>

lemma server_inv_conn_ran:
  assumes inv: "server_inv s" and a: "a < length (s_heap s)"
    and id: "m_connId conn' = m_connId (s_heap s ! a)"
    and ready: "conn_ready ts conn'"
    and reported: "\<not> m_socket_open conn' \<Longrightarrow> m_socket_open (s_heap s ! a) \<Longrightarrow>
      m_connId conn' \<in> set (disconnect_ids (new_events (s_heap s ! a) conn'))"
    and closed: "m_socket_open conn' \<Longrightarrow> m_socket_open (s_heap s ! a)"
    and pending: "TaskClose \<in> set (s_tasks s a) \<Longrightarrow> TaskClose \<in> set ts \<or> \<not> m_socket_open conn'"
  shows "server_inv (conn_ran False a conn' (s\<lparr>s_tasks := (s_tasks s)(a := ts)\<rparr>))"
proof -
  let ?s = "conn_ran False a conn' (s\<lparr>s_tasks := (s_tasks s)(a := ts)\<rparr>)"
  have entries: "entry_ok ?s connId b" if "(connId, b) \<in> set (m_connections s)" for connId b
    using server_invD(2) [OF inv that] id reported closed pending a
    by (cases "b = a") (auto simp: entry_ok_def conn_ran_eq)
  have readys: "conn_ready (s_tasks ?s b) (s_heap ?s ! b)" if "b < length (s_heap s)" for b
    using server_invD(3) [OF inv that] ready a by (simp add: conn_ran_eq)
  show ?thesis
    unfolding server_inv_def
    using entries readys server_invD(1,4,5) [OF inv] a by (auto simp: conn_ran_eq)
qed

section \<open>The handlers\<close>

text \<open>What every handler of a connection does as far as the server can see.\<close>

definition evolves ::
  "(conn_observer, 'q) AsioConnection \<Rightarrow> (conn_observer, 'q) AsioConnection \<Rightarrow> bool" where
  "evolves conn conn' \<longleftrightarrow>
     m_connId conn' = m_connId conn
     \<and> registered conn' ServerObserver = registered conn ServerObserver
     \<and> (m_socket_open conn' \<longrightarrow> m_socket_open conn)
     \<and> (registered conn ServerObserver \<longrightarrow> m_socket_open conn \<longrightarrow> \<not> m_socket_open conn' \<longrightarrow>
          m_connId conn \<in> set (disconnect_ids (new_events conn conn')))
     \<and> (\<forall>i \<in> set (disconnect_ids (new_events conn conn')). i = m_connId conn \<and> \<not> m_socket_open conn')"

lemma targets_all [simp]: "targets (\<lambda>_. True) s = m_observers s"
  by (simp add: targets_def)

lemma evolves_loops [simp]:
  "evolves conn (conn'\<lparr>c_read := r\<rparr>) = evolves conn conn'"
  "evolves conn (conn'\<lparr>c_write := w\<rparr>) = evolves conn conn'"
  by (simp_all add: evolves_def registered_def new_events_def)

lemma evolves_refl [simp]: "evolves conn conn"
  by (simp add: evolves_def new_events_def)

lemma evolves_close:
  assumes "CloseUnderLock api True (\<lambda>_. True) conn = Inr conn'"
  shows "evolves conn conn'" and "\<not> m_socket_open conn'"
  using assms
  by (auto simp: CloseUnderLock_eq notify_event_eq evolves_def registered_def new_events_def
      split: if_splits)

lemma evolves_read:
  assumes "RunReadLoop_turn env api (\<lambda>_. True) res conn = Inr conn'"
  shows "evolves conn conn'"
proof (cases res)
  case (ReadSome bytes)
  with assms show ?thesis
    by (auto simp: RunReadLoop_turn_def read_bytes_feed conn_after_feed_def evolves_def
        registered_def prune_if_def new_events_def split: prod.splits if_splits)
qed (use assms evolves_close in \<open>auto simp: RunReadLoop_turn_def Close_def split: sum.splits\<close>)

lemma evolves_receive:
  assumes "RunWriteLoop_received api (\<lambda>_. True) rcv conn = Inr conn'"
  shows "evolves conn conn'"
proof (cases rcv)
  case (Received msg)
  with assms show ?thesis
    by (auto simp: RunWriteLoop_received_def evolves_def registered_def new_events_def
        split: option.splits)
qed (use assms evolves_close in \<open>auto simp: RunWriteLoop_received_def Close_def split: sum.splits\<close>)

lemma evolves_written:
  "RunWriteLoop_written api (\<lambda>_. True) wr conn = Inr conn' \<Longrightarrow> evolves conn conn'"
  by (cases wr) (auto simp: RunWriteLoop_written_def Close_def split: sum.splits
      dest: evolves_close)

lemma server_inv_io:
  assumes inv: "server_inv s" and a: "a < length (s_heap s)"
    and ev: "evolves (s_heap s ! a) conn'"
    and busy: "c_read (s_heap s ! a) \<noteq> ReadIdle \<or> c_write (s_heap s ! a) \<noteq> WriteIdle"
  shows "server_inv (conn_ran False a conn' s)"
proof -
  have reg: "registered (s_heap s ! a) ServerObserver" "set (s_tasks s a) \<subseteq> {TaskClose}"
    using server_invD(3) [OF inv a] busy by (auto simp: conn_ready_def)
  have "server_inv (conn_ran False a conn' (s\<lparr>s_tasks := (s_tasks s)(a := s_tasks s a)\<rparr>))"
    using ev reg by (intro server_inv_conn_ran [OF inv a]) (auto simp: evolves_def conn_ready_def)
  then show ?thesis by simp
qed

lemma server_inv_task:
  assumes inv: "server_inv s" and a: "a < length (s_heap s)" and ts: "s_tasks s a = t # ts"
    and run: "run_task api t (s_heap s ! a) = Inr conn'"
  shows "server_inv (conn_ran False a conn' (s\<lparr>s_tasks := (s_tasks s)(a := ts)\<rparr>))"
proof (cases t)
  case TaskAddObserver
  with run have c: "conn' = conn_AddObserver (\<lambda>_. True) ServerObserver (s_heap s ! a)"
    by (simp add: run_task_def)
  show ?thesis
    using server_invD(3) [OF inv a] ts TaskAddObserver
    by (intro server_inv_conn_ran [OF inv a])
      (auto simp: c conn_AddObserver_def conn_ready_def registered_def observable_defs)
next
  case TaskOnConnected
  then show ?thesis
    using run server_invD(3) [OF inv a] ts
    by (intro server_inv_conn_ran [OF inv a])
      (auto simp: run_task_def OnConnected_def conn_ready_def registered_def)
next
  case TaskClose
  with run have "CloseUnderLock api True (\<lambda>_. True) (s_heap s ! a) = Inr conn'"
    by (simp add: run_task_def)
  from evolves_close [OF this] show ?thesis
    using server_invD(3) [OF inv a] ts TaskClose
    by (intro server_inv_conn_ran [OF inv a]) (auto simp: evolves_def conn_ready_def)
qed

lemma server_inv_deliver:
  assumes inv: "server_inv s" and a: "a < length (s_heap s)"
    and d: "DeliverResponse api msg (s_heap s ! a) = (r, conn')"
  shows "server_inv (conn_ran False a conn' s)"
proof -
  have "\<exists>q. conn' = (s_heap s ! a)\<lparr>m_writeQueue := q\<rparr>"
    using d by (auto simp: DeliverResponse_def Let_def split: prod.splits if_splits)
  then have "server_inv (conn_ran False a conn' (s\<lparr>s_tasks := (s_tasks s)(a := s_tasks s a)\<rparr>))"
    using server_invD(3) [OF inv a]
    by (intro server_inv_conn_ran [OF inv a]) (auto simp: conn_ready_def registered_def)
  then show ?thesis by simp
qed

lemma server_inv_strand:
  assumes inv: "server_inv s" and "s_strand s = connId # rest"
  shows "server_inv (erase_connection connId (s\<lparr>s_strand := rest\<rparr>))"
proof -
  have "entry_ok (erase_connection connId (s\<lparr>s_strand := rest\<rparr>)) i a"
    if "(i, a) \<in> set (AList.delete connId (m_connections s))" for i a
    using that server_invD(2) [OF inv, of i a] assms(2)
    by (auto simp: entry_ok_def erase_connection_def AList.delete_eq)
  then show ?thesis
    unfolding server_inv_def using server_invD [OF inv]
    by (auto simp: erase_connection_def distinct_delete)
qed

lemma conn_ready_new:
  "conn_ready [TaskAddObserver, TaskOnConnected] (AsioConnection_new connId queue)"
  unfolding conn_ready_def by (intro exI [of _ "[]"]) (simp add: AsioConnection_new_def)

lemma server_inv_accept:
  assumes inv: "server_inv s"
  shows "server_inv (AcceptConnections_turn queue res s)"
proof (cases "res = Accepted \<and> \<not> m_draining s")
  case True
  let ?s = "AcceptConnections_turn queue res s"
  let ?n = "length (s_heap s)"
  have eqs: "s_heap ?s = s_heap s @ [AsioConnection_new (m_nextConnId s) queue]"
    "m_connections ?s = lhm_emplace (m_nextConnId s) ?n (m_connections s)"
    "s_tasks ?s = (s_tasks s)(?n := [TaskAddObserver, TaskOnConnected])"
    "s_strand ?s = s_strand s" "m_draining ?s = m_draining s"
    using True server_invD(4) [OF inv, of ?n] by (auto simp: AcceptConnections_turn_def Let_def)
  have drain: "\<not> m_draining s" using True by simp
  have "entry_ok ?s i a" if "(i, a) \<in> set (m_connections ?s)" for i a
  proof (cases "(i, a) \<in> set (m_connections s)")
    case True
    with server_invD(2) [OF inv this] show ?thesis by (auto simp: entry_ok_def eqs nth_append)
  next
    case False
    with that have "i = m_nextConnId s" "a = ?n"
      by (auto simp: eqs lhm_emplace_def split: if_splits option.splits)
    then show ?thesis using drain by (simp add: entry_ok_def eqs AsioConnection_new_def)
  qed
  moreover have "conn_ready (s_tasks ?s a) (s_heap ?s ! a)" if "a < length (s_heap ?s)" for a
    using that server_invD(3) [OF inv, of a] conn_ready_new
    by (cases "a = ?n") (auto simp: eqs nth_append)
  moreover have "distinct (map fst (m_connections ?s))"
    using server_invD(1) [OF inv]
    by (auto simp: eqs lhm_emplace_def map_of_eq_None_iff split: option.split)
  ultimately show ?thesis
    unfolding server_inv_def using server_invD(4) [OF inv] drain by (auto simp: eqs)
next
  case False
  then have "AcceptConnections_turn queue res s = s\<lparr>s_accept := LoopReturned\<rparr>"
    by (cases res) (auto simp: AcceptConnections_turn_def)
  then show ?thesis using inv by (simp add: server_inv_def entry_ok_def)
qed

lemma dom_fold_delete: "fst ` set (fold AList.delete ks al) \<subseteq> fst ` set al"
proof (induction ks arbitrary: al)
  case (Cons k ks)
  from Cons [of "AList.delete k al"] AList.dom_delete_subset [of k al] show ?case by simp
qed simp

lemma fold_delete_gone: "k \<in> set ks \<Longrightarrow> k \<notin> fst ` set (fold AList.delete ks al)"
proof (induction ks arbitrary: al)
  case (Cons x ks)
  show ?case
  proof (cases "k \<in> set ks")
    case False
    with Cons.prems have "k = x" by simp
    then show ?thesis
      using dom_fold_delete [of ks "AList.delete x al"] AList.delete_notin_dom [of x al] by auto
  qed (use Cons.IH in simp)
qed simp

lemma conn_ran_self: "conn_ran on_strand a (s_heap s ! a) s = s"
  by (cases s) (simp add: conn_ran_def)

lemma close_inline:
  assumes "conn_ready [] (s_heap s ! a)" and "m_connId (s_heap s ! a) \<in> fst ` set (m_connections s)"
    and "Close api (\<lambda>_. True) (s_heap s ! a) = Inr conn'"
  shows "m_connections (conn_ran True a conn' s) = m_connections s \<longleftrightarrow> \<not> m_socket_open (s_heap s ! a)"
    and "\<not> m_socket_open (s_heap s ! a) \<Longrightarrow> conn_ran True a conn' s = s"
proof -
  note cl = evolves_close [OF assms(3) [unfolded Close_def]]
  have eq: "conn_ran True a conn' s = s\<lparr>s_heap := (s_heap s)[a := conn'],
      m_connections := fold AList.delete (disconnect_ids (new_events (s_heap s ! a) conn')) (m_connections s)\<rparr>"
    by (simp add: conn_ran_def fold_Server_event new_events_def)
  show same: "conn_ran True a conn' s = s" if "\<not> m_socket_open (s_heap s ! a)"
    using that assms(3) conn_ran_self [of True a s] by simp
  have "m_connections (conn_ran True a conn' s) \<noteq> m_connections s" if "m_socket_open (s_heap s ! a)"
  proof -
    have "m_connId (s_heap s ! a) \<in> set (disconnect_ids (new_events (s_heap s ! a) conn'))"
      using cl that assms(1) by (auto simp: evolves_def conn_ready_def)
    from fold_delete_gone [OF this, of "m_connections s"] assms(2) show ?thesis by (auto simp: eq)
  qed
  with same show "m_connections (conn_ran True a conn' s) = m_connections s \<longleftrightarrow> \<not> m_socket_open (s_heap s ! a)"
    by auto
qed

text \<open>
  When the closing loop does not fault it has closed nothing itself: every connection that
  is still open got a pending close.
\<close>

definition tasks_extended :: "(addr \<Rightarrow> conn_task list) \<Rightarrow> (addr \<Rightarrow> conn_task list) \<Rightarrow> bool" where
  "tasks_extended ts ts' \<longleftrightarrow> (\<forall>a. \<exists>k. ts' a = ts a @ replicate k TaskClose)"

lemma tasks_extended_refl [simp]: "tasks_extended ts ts"
  unfolding tasks_extended_def by (metis append_Nil2 replicate_0)

lemma tasks_extended_step:
  assumes "tasks_extended (ts(a := ts a @ [TaskClose])) ts'"
  shows "tasks_extended ts ts'" and "TaskClose \<in> set (ts' a)"
proof -
  have "\<exists>k. ts' b = ts b @ replicate k TaskClose" for b
  proof (cases "b = a")
    case True
    with assms obtain k where "ts' b = (ts a @ [TaskClose]) @ replicate k TaskClose"
      unfolding tasks_extended_def by (metis fun_upd_same)
    with True show ?thesis by (intro exI [of _ "Suc k"]) simp
  qed (use assms in \<open>auto simp: tasks_extended_def split: if_splits\<close>)
  then show "tasks_extended ts ts'" by (simp add: tasks_extended_def)
  obtain k where "ts' a = (ts a @ [TaskClose]) @ replicate k TaskClose"
    using assms unfolding tasks_extended_def by (metis fun_upd_same)
  then show "TaskClose \<in> set (ts' a)" by simp
qed

lemma conn_ready_extended:
  assumes "conn_ready ts conn"
  shows "conn_ready (ts @ replicate k TaskClose) conn"
proof -
  from assms obtain closes where "set closes \<subseteq> {TaskClose}"
    "ts = closes \<and> registered conn ServerObserver
     \<or> ts = TaskOnConnected # closes \<and> registered conn ServerObserver
         \<and> c_read conn = ReadIdle \<and> c_write conn = WriteIdle
     \<or> ts = TaskAddObserver # TaskOnConnected # closes \<and> m_socket_open conn
         \<and> c_read conn = ReadIdle \<and> c_write conn = WriteIdle"
    unfolding conn_ready_def by blast
  then show ?thesis
    unfolding conn_ready_def by (intro exI [of _ "closes @ replicate k TaskClose"]) auto
qed

definition entries_ok :: "(ConnId \<times> addr) list \<Rightarrow> 'q Server \<Rightarrow> bool" where
  "entries_ok es s \<longleftrightarrow>
     (\<forall>(i, a) \<in> set es. a < length (s_heap s) \<and> m_connId (s_heap s ! a) = i
        \<and> i \<in> fst ` set (m_connections s))
     \<and> (\<forall>a < length (s_heap s). conn_ready (s_tasks s a) (s_heap s ! a))"

lemma close_all_result:
  "entries_ok es s \<Longrightarrow> close_all api run_now es s = Inr s' \<Longrightarrow>
     \<exists>ts. s' = s\<lparr>s_tasks := ts\<rparr> \<and> tasks_extended (s_tasks s) ts
       \<and> (\<forall>b. ts b \<noteq> s_tasks s b \<longrightarrow> b < length (s_heap s))
       \<and> (\<forall>(i, a) \<in> set es. m_socket_open (s_heap s ! a) \<longrightarrow> TaskClose \<in> set (ts a))"
proof (induction es arbitrary: s)
  case Nil
  then show ?case by (intro exI [of _ "s_tasks s"]) simp
next
  case (Cons e es)
  obtain i a where e: "e = (i, a)" by (cases e)
  from Cons.prems(1) e have a: "a < length (s_heap s)" "conn_ready (s_tasks s a) (s_heap s ! a)"
    "m_connId (s_heap s ! a) \<in> fst ` set (m_connections s)"
    by (auto simp: entries_ok_def)
  show ?case
  proof (cases "run_now a \<and> s_tasks s a = []")
    case True
    obtain conn' where c: "Close api (\<lambda>_. True) (s_heap s ! a) = Inr conn'"
      by (simp add: Close_def CloseUnderLock_eq)
    from True a(2) have "conn_ready [] (s_heap s ! a)" by simp
    note inl = close_inline [OF this a(3) c]
    from Cons.prems(2) True c inl e have shut: "\<not> m_socket_open (s_heap s ! a)"
      and rest: "close_all api run_now es s = Inr s'"
      by (auto simp: Let_def split: if_splits)
    from Cons.IH [OF _ rest] Cons.prems(1) e shut show ?thesis by (auto simp: entries_ok_def)
  next
    case False
    let ?s = "s\<lparr>s_tasks := (s_tasks s)(a := s_tasks s a @ [TaskClose])\<rparr>"
    have "entries_ok es ?s"
      using Cons.prems(1) e conn_ready_extended [OF a(2), of 1] by (auto simp: entries_ok_def)
    moreover have "close_all api run_now es ?s = Inr s'"
      using Cons.prems(2) e False by auto
    ultimately have "\<exists>ts. s' = ?s\<lparr>s_tasks := ts\<rparr> \<and> tasks_extended (s_tasks ?s) ts
        \<and> (\<forall>b. ts b \<noteq> s_tasks ?s b \<longrightarrow> b < length (s_heap ?s))
        \<and> (\<forall>(i, a) \<in> set es. m_socket_open (s_heap ?s ! a) \<longrightarrow> TaskClose \<in> set (ts a))"
      by (rule Cons.IH)
    then obtain ts where ts: "s' = ?s\<lparr>s_tasks := ts\<rparr>" "tasks_extended (s_tasks ?s) ts"
      "\<forall>b. ts b \<noteq> s_tasks ?s b \<longrightarrow> b < length (s_heap s)"
      "\<forall>(i, a) \<in> set es. m_socket_open (s_heap s ! a) \<longrightarrow> TaskClose \<in> set (ts a)"
      by (elim exE conjE) (rule that, simp_all)
    from tasks_extended_step [of "s_tasks s" a ts] ts a(1) e show ?thesis
      by (intro exI [of _ ts]) (auto split: if_splits)
  qed
qed

definition terminal :: "signal_result \<Rightarrow> bool" where
  "terminal res \<longleftrightarrow> (\<exists>sig \<in> set kTerminalSignals. res = Signal sig)"

lemmas signal_defs = kReloadSignals_def kTerminalSignals_def SIGHUP_def SIGINT_def SIGTERM_def

lemma HandleSignals_terminal_eq:
  "terminal res \<Longrightarrow>
     HandleSignals_turn api run_now res s =
       (let s = s\<lparr>m_draining := True, m_acceptor_open := False\<rparr> in
          case close_all api run_now (m_connections s) s of
            Inl fault \<Rightarrow> Inl fault
          | Inr s \<Rightarrow> Inr (s\<lparr>s_signal := LoopReturned\<rparr>))"
  by (auto simp: terminal_def HandleSignals_turn_def signal_defs)

lemma HandleSignals_other:
  "HandleSignals_turn api run_now res s = Inr s' \<Longrightarrow> \<not> terminal res \<Longrightarrow>
     s' = s \<or> s' = s\<lparr>s_signal := LoopReturned\<rparr>"
  by (auto simp: terminal_def HandleSignals_turn_def split: signal_result.splits if_splits)

lemma entries_ok_draining:
  assumes "server_inv s"
  shows "entries_ok (m_connections s) (s\<lparr>m_draining := True, m_acceptor_open := False\<rparr>)"
  using server_invD(2,3) [OF assms] by (auto simp: entries_ok_def entry_ok_def) (force)

lemma HandleSignals_terminal:
  assumes inv: "server_inv s" and "HandleSignals_turn api run_now res s = Inr s'" and "terminal res"
  obtains ts where
    "s' = s\<lparr>m_draining := True, m_acceptor_open := False, s_tasks := ts, s_signal := LoopReturned\<rparr>"
    "tasks_extended (s_tasks s) ts" "\<And>b. ts b \<noteq> s_tasks s b \<Longrightarrow> b < length (s_heap s)"
    "\<And>i a. (i, a) \<in> set (m_connections s) \<Longrightarrow> m_socket_open (s_heap s ! a) \<Longrightarrow> TaskClose \<in> set (ts a)"
proof -
  from assms(2) HandleSignals_terminal_eq [OF assms(3), of api run_now s] obtain s1 where
    s1: "close_all api run_now (m_connections s) (s\<lparr>m_draining := True, m_acceptor_open := False\<rparr>) = Inr s1"
    "s' = s1\<lparr>s_signal := LoopReturned\<rparr>"
    by (auto simp: Let_def split: sum.splits)
  from close_all_result [OF entries_ok_draining [OF inv] s1(1)] s1(2) show thesis
    by (auto intro: that)
qed

lemma server_inv_signal:
  assumes inv: "server_inv s" and turn: "HandleSignals_turn api run_now res s = Inr s'"
  shows "server_inv s'"
proof (cases "terminal res")
  case True
  from HandleSignals_terminal [OF inv turn True] obtain ts where ts:
    "s' = s\<lparr>m_draining := True, m_acceptor_open := False, s_tasks := ts, s_signal := LoopReturned\<rparr>"
    "tasks_extended (s_tasks s) ts" "\<And>b. ts b \<noteq> s_tasks s b \<Longrightarrow> b < length (s_heap s)"
    "\<And>i a. (i, a) \<in> set (m_connections s) \<Longrightarrow> m_socket_open (s_heap s ! a) \<Longrightarrow> TaskClose \<in> set (ts a)"
    by blast
  have "conn_ready (ts a) (s_heap s ! a)" if "a < length (s_heap s)" for a
    using server_invD(3) [OF inv that] ts(2) conn_ready_extended
    unfolding tasks_extended_def by metis
  moreover have "ts a = []" if "length (s_heap s) \<le> a" for a
    using ts(3) that server_invD(4) [OF inv that] by (metis leD)
  moreover have "entry_ok s' i a" if "(i, a) \<in> set (m_connections s)" for i a
    using server_invD(2) [OF inv that] ts(4) [OF that] by (auto simp: entry_ok_def ts(1))
  ultimately show ?thesis
    unfolding server_inv_def using server_invD(1) [OF inv] by (auto simp: ts(1))
next
  case False
  with HandleSignals_other [OF turn] show ?thesis using inv by (auto simp: server_inv_def entry_ok_def)
qed

lemma server_step_inv: "server_step env api queue s s' \<Longrightarrow> server_inv s \<Longrightarrow> server_inv s'"
  by (induction rule: server_step.induct)
    (auto intro: server_inv_accept server_inv_signal server_inv_strand server_inv_task
      server_inv_io [OF _ _ evolves_read] server_inv_io [OF _ _ evolves_receive]
      server_inv_io [OF _ _ evolves_written] server_inv_deliver)

lemma server_reachable_inv: "server_reachable env api queue config s \<Longrightarrow> server_inv s"
proof (induction rule: server_reachable.induct)
  case (start listen_ok s)
  then show ?case
    by (auto simp: ServeForever_def Server_new_def server_inv_def Let_def split: if_splits)
qed (blast intro: server_step_inv)

section \<open>Identifiers and open connections\<close>

text \<open>Identifiers are handed out in order; they repeat only after \<open>2\<^sup>6\<^sup>4\<close> connections.\<close>

definition ids_inv :: "'q Server \<Rightarrow> bool" where
  "ids_inv s \<longleftrightarrow>
     m_nextConnId s = of_nat (length (s_heap s) + 1)
     \<and> (\<forall>a < length (s_heap s). m_connId (s_heap s ! a) = of_nat (a + 1))"

text \<open>Until then an open connection is in the map, and only closed ones are about to be
  erased.\<close>

definition open_inv :: "'q Server \<Rightarrow> bool" where
  "open_inv s \<longleftrightarrow>
     (\<forall>a < length (s_heap s). m_socket_open (s_heap s ! a) \<longrightarrow>
        (of_nat (a + 1), a) \<in> set (m_connections s))
     \<and> (\<forall>i \<in> set (s_strand s). \<exists>a < length (s_heap s). i = of_nat (a + 1) \<and> \<not> m_socket_open (s_heap s ! a))"

text \<open>Every step either accepts, erases, or runs a handler of one connection.\<close>

lemma server_step_cases':
  assumes "server_step env api queue s s'" and "server_inv s"
  obtains (accept) res where "s_accept s = LoopWaiting" "s' = AcceptConnections_turn queue res s"
  | (frame) "m_connections s' = m_connections s" "s_heap s' = s_heap s" "s_strand s' = s_strand s"
      "m_nextConnId s' = m_nextConnId s" "m_draining s \<Longrightarrow> m_draining s'"
  | (erase) connId where "connId \<in> set (s_strand s)"
      "m_connections s' = AList.delete connId (m_connections s)" "s_heap s' = s_heap s"
      "set (s_strand s') \<subseteq> set (s_strand s)" "m_nextConnId s' = m_nextConnId s" "m_draining s' = m_draining s"
  | (handler) a conn' where "a < length (s_heap s)" "conn_step env api (s_heap s ! a) conn'"
      "evolves (s_heap s ! a) conn' \<or> m_socket_open conn' = m_socket_open (s_heap s ! a)
         \<and> c_log conn' = c_log (s_heap s ! a)"
      "m_connections s' = m_connections s" "s_heap s' = (s_heap s)[a := conn']"
      "s_strand s' = s_strand s @ disconnect_ids (new_events (s_heap s ! a) conn')"
      "m_nextConnId s' = m_nextConnId s" "m_draining s' = m_draining s"
  using assms(1)
proof cases
  case (signal run_now sig)
  show ?thesis
  proof (cases "terminal sig")
    case True
    obtain ts where
      "s' = s\<lparr>m_draining := True, m_acceptor_open := False, s_tasks := ts, s_signal := LoopReturned\<rparr>"
      by (rule HandleSignals_terminal [OF assms(2) signal(3) True])
    then show ?thesis by (intro frame) simp_all
  next
    case False
    from HandleSignals_other [OF signal(3) False] show ?thesis by (intro frame) auto
  qed
next
  case (strand connId rest)
  then show ?thesis by (intro erase [of connId]) (auto simp: erase_connection_def)
next
  case (task a t ts conn')
  have "conn_step env api (s_heap s ! a) conn'"
    using task server_invD(3) [OF assms(2), of a]
    by (auto simp: run_task_def Close_def [symmetric] conn_ready_def split: conn_task.splits
        intro: conn_step.intros)
  moreover have "evolves (s_heap s ! a) conn' \<or> m_socket_open conn' = m_socket_open (s_heap s ! a)
         \<and> c_log conn' = c_log (s_heap s ! a)"
    using task evolves_close
    by (auto simp: run_task_def conn_AddObserver_def OnConnected_def split: conn_task.splits)
  ultimately show ?thesis using task by (intro handler [of a conn']) (auto simp: conn_ran_eq)
next
  case (read a res conn')
  then show ?thesis
    by (intro handler [of a conn']) (auto simp: conn_ran_eq intro: conn_step.intros evolves_read)
next
  case (receive a rcv conn')
  then show ?thesis
    by (intro handler [of a conn']) (auto simp: conn_ran_eq intro: conn_step.intros evolves_receive)
next
  case (written a wr conn')
  then show ?thesis
    by (intro handler [of a conn']) (auto simp: conn_ran_eq intro: conn_step.intros evolves_written)
next
  case (deliver a msg r conn')
  then have "\<exists>q. conn' = (s_heap s ! a)\<lparr>m_writeQueue := q\<rparr>"
    by (auto simp: DeliverResponse_def Let_def split: prod.splits if_splits)
  with deliver show ?thesis
    by (intro handler [of a conn']) (auto simp: conn_ran_eq intro: conn_step.intros)
qed (blast intro: accept)

lemma handler_connId:
  "conn_step env api conn conn' \<Longrightarrow> m_connId conn' = m_connId conn"
  by (induction rule: conn_step.induct)
    (auto simp: conn_handler_defs Close_def CloseUnderLock_eq notify_event_eq read_bytes_feed
      conn_after_feed_def Let_def
      split: prod.splits sum.splits option.splits if_splits read_result.splits
        receive_result.splits write_result.splits)

lemma ids_inv_step:
  assumes "server_step env api queue s s'" and "server_inv s" and "ids_inv s"
  shows "ids_inv s'"
  using assms(1,2)
proof (cases rule: server_step_cases')
  case (accept res)
  with assms(3) show ?thesis
    by (cases res)
      (auto simp: AcceptConnections_turn_def ids_inv_def Let_def nth_append AsioConnection_new_def
        less_Suc_eq)
next
  case (handler a conn')
  with assms(3) handler_connId [OF handler(2)] show ?thesis
    by (auto simp: ids_inv_def nth_list_update)
qed (use assms(3) in \<open>simp_all add: ids_inv_def\<close>)

lemma server_reachable_ids: "server_reachable env api queue config s \<Longrightarrow> ids_inv s"
proof (induction rule: server_reachable.induct)
  case (start listen_ok s)
  then show ?case by (auto simp: ServeForever_def Server_new_def ids_inv_def Let_def split: if_splits)
qed (blast intro: ids_inv_step server_reachable_inv)

lemma of_nat_id_inj:
  assumes "n < 2 ^ 64" and "a < n" and "b < n" and "of_nat (a + 1) = (of_nat (b + 1) :: ConnId)"
  shows "a = b"
proof -
  have "unat (of_nat (a + 1) :: ConnId) = a + 1" "unat (of_nat (b + 1) :: ConnId) = b + 1"
    using assms(1-3) by (simp_all only: unat_of_nat) simp_all
  with assms(4) show ?thesis by (metis add_right_cancel)
qed

lemma heap_grows:
  assumes "server_step env api queue s s'" and "server_inv s"
  shows "length (s_heap s) \<le> length (s_heap s')"
  using assms
proof (cases rule: server_step_cases')
  case (accept res)
  then show ?thesis by (cases res) (auto simp: AcceptConnections_turn_def Let_def)
qed simp_all

lemma open_invD:
  assumes "open_inv s"
  shows "a < length (s_heap s) \<Longrightarrow> m_socket_open (s_heap s ! a) \<Longrightarrow>
      (of_nat (a + 1), a) \<in> set (m_connections s)"
    and "i \<in> set (s_strand s) \<Longrightarrow>
      \<exists>a < length (s_heap s). i = of_nat (a + 1) \<and> \<not> m_socket_open (s_heap s ! a)"
  using assms by (auto simp: open_inv_def)

lemma open_inv_accept:
  assumes inv: "server_inv s" and ids: "ids_inv s" and op: "open_inv s"
    and bound: "length (s_heap (AcceptConnections_turn queue res s)) < 2 ^ 64"
  shows "open_inv (AcceptConnections_turn queue res s)"
proof (cases "res = Accepted \<and> \<not> m_draining s")
  case True
  let ?s = "AcceptConnections_turn queue res s"
  let ?n = "length (s_heap s)"
  have eqs: "s_heap ?s = s_heap s @ [AsioConnection_new (m_nextConnId s) queue]"
    "m_connections ?s = lhm_emplace (m_nextConnId s) ?n (m_connections s)"
    "s_strand ?s = s_strand s"
    using True by (auto simp: AcceptConnections_turn_def Let_def)
  have n: "Suc ?n < 2 ^ 64" using bound eqs(1) by simp
  have "i \<noteq> of_nat (?n + 1)" if "(i, a) \<in> set (m_connections s)" for i a
  proof -
    have "a < ?n" "i = of_nat (a + 1)"
      using server_invD(2) [OF inv that] ids by (auto simp: entry_ok_def ids_inv_def)
    then show ?thesis using of_nat_id_inj [OF n, of a ?n] by auto
  qed
  then have "map_of (m_connections s) (of_nat (?n + 1)) = None"
    by (metis map_of_SomeD not_None_eq)
  with ids have conns: "m_connections ?s = m_connections s @ [(of_nat (?n + 1), ?n)]"
    by (simp add: eqs lhm_emplace_def ids_inv_def)
  show ?thesis
    using op by (auto simp: open_inv_def eqs(1,3) conns nth_append less_Suc_eq)
next
  case False
  then have "AcceptConnections_turn queue res s = s\<lparr>s_accept := LoopReturned\<rparr>"
    by (cases res) (auto simp: AcceptConnections_turn_def)
  then show ?thesis using op by (simp add: open_inv_def)
qed

lemma open_inv_step:
  assumes step: "server_step env api queue s s'" and inv: "server_inv s" and ids: "ids_inv s"
    and op: "open_inv s" and bound: "length (s_heap s') < 2 ^ 64"
  shows "open_inv s'"
  using step inv
proof (cases rule: server_step_cases')
  case (accept res)
  then show ?thesis using open_inv_accept [OF inv ids op] bound by simp
next
  case frame
  then show ?thesis using op by (simp add: open_inv_def)
next
  case (erase connId)
  obtain b where b: "b < length (s_heap s)" "connId = of_nat (b + 1)" "\<not> m_socket_open (s_heap s ! b)"
    using open_invD(2) [OF op erase(1)] by blast
  have "(of_nat (a + 1), a) \<in> set (m_connections s')"
    if a: "a < length (s_heap s)" "m_socket_open (s_heap s ! a)" for a
  proof -
    have "a \<noteq> b" using a(2) b(3) by blast
    then have "of_nat (a + 1) \<noteq> connId"
      unfolding b(2) using of_nat_id_inj [OF _ a(1) b(1)] bound erase(3) by metis
    then show ?thesis using open_invD(1) [OF op a] erase(2) by (simp add: AList.delete_eq)
  qed
  then show ?thesis
    using erase open_invD(2) [OF op] by (auto simp: open_inv_def)
next
  case (handler a conn')
  have id: "m_connId (s_heap s ! a) = of_nat (a + 1)" using ids handler(1) by (simp add: ids_inv_def)
  have "m_socket_open conn' \<Longrightarrow> m_socket_open (s_heap s ! a)"
    and "\<And>i. i \<in> set (disconnect_ids (new_events (s_heap s ! a) conn')) \<Longrightarrow>
       i = of_nat (a + 1) \<and> \<not> m_socket_open conn'"
    using handler(3) id by (auto simp: evolves_def new_events_def)
  then show ?thesis
    using handler(1,4-6) open_invD [OF op]
    by (simp add: open_inv_def nth_list_update) (metis (no_types, lifting) Un_iff)
qed

lemma server_reachable_open:
  "server_reachable env api queue config s \<Longrightarrow> length (s_heap s) < 2 ^ 64 \<Longrightarrow> open_inv s"
proof (induction rule: server_reachable.induct)
  case (start listen_ok s)
  then show ?case by (auto simp: ServeForever_def Server_new_def open_inv_def Let_def split: if_splits)
next
  case (step s s')
  note inv = server_reachable_inv [OF step(1)]
  from heap_grows [OF step(2) inv] step(4) have "length (s_heap s) < 2 ^ 64" by simp
  with step open_inv_step [OF step(2) inv server_reachable_ids [OF step(1)]] show ?case by blast
qed

section \<open>Shutting down\<close>

lemma draining_step:
  assumes "server_step env api queue s s'" and "server_inv s" and "m_draining s"
  shows "m_draining s' \<and> length (s_heap s') = length (s_heap s)
    \<and> set (m_connections s') \<subseteq> set (m_connections s)"
  using assms(1,2)
proof (cases rule: server_step_cases')
  case (accept res)
  with assms(3) show ?thesis by (cases res) (auto simp: AcceptConnections_turn_def Let_def)
qed (use assms(3) in \<open>auto simp: AList.delete_eq\<close>)

lemma draining_steps:
  "(server_step env api queue)\<^sup>*\<^sup>* s s' \<Longrightarrow> server_inv s \<Longrightarrow> m_draining s \<Longrightarrow>
     server_inv s' \<and> m_draining s' \<and> length (s_heap s') = length (s_heap s)
     \<and> set (m_connections s') \<subseteq> set (m_connections s)"
proof (induction rule: rtranclp_induct)
  case (step s1 s2)
  then have "server_inv s1" "m_draining s1" by blast+
  with draining_step [OF step(2)] server_step_inv [OF step(2)] step show ?case by fastforce
qed simp

text \<open>The handlers waiting in the queues.\<close>

definition pending :: "'q Server \<Rightarrow> nat" where
  "pending s = (\<Sum>a < length (s_heap s). length (s_tasks s a))"

definition quiescent :: "'q Server \<Rightarrow> bool" where
  "quiescent s \<longleftrightarrow> s_strand s = [] \<and> (\<forall>a. s_tasks s a = [])"

lemma pending_zero: "server_inv s \<Longrightarrow> pending s = 0 \<Longrightarrow> s_tasks s a = []"
  using server_invD(4) [of s a] by (cases "a < length (s_heap s)") (auto simp: pending_def)

lemma run_strand:
  "0 < m_workers s \<Longrightarrow>
     \<exists>s'. (server_step env api queue)\<^sup>*\<^sup>* s s' \<and> s_strand s' = [] \<and> s_tasks s' = s_tasks s"
proof (induction "s_strand s" arbitrary: s)
  case (Cons connId rest)
  let ?s = "erase_connection connId (s\<lparr>s_strand := rest\<rparr>)"
  have "server_step env api queue s ?s" using Cons.hyps(2) Cons.prems by (intro server_step.strand) auto
  with Cons.hyps(1) [of ?s] Cons.prems show ?case
    by (auto simp: erase_connection_def intro: converse_rtranclp_into_rtranclp)
qed auto

lemma run_task_total: "\<exists>conn'. run_task api t conn = Inr conn'"
  by (cases t) (simp_all add: run_task_def CloseUnderLock_eq)

lemma pending_pop:
  assumes "a < length (s_heap s)" and "s_tasks s a = t # ts"
  shows "pending (conn_ran False a conn' (s\<lparr>s_tasks := (s_tasks s)(a := ts)\<rparr>)) < pending s"
proof -
  have "(\<Sum>b < length (s_heap s). length (((s_tasks s)(a := ts)) b))
      < (\<Sum>b < length (s_heap s). length (s_tasks s b))"
    using assms by (intro sum_strict_mono_ex1) auto
  then show ?thesis by (simp add: pending_def conn_ran_eq)
qed

lemma run_tasks:
  "server_inv s \<Longrightarrow> 0 < m_workers s \<Longrightarrow>
     \<exists>s'. (server_step env api queue)\<^sup>*\<^sup>* s s' \<and> server_inv s' \<and> pending s' = 0
       \<and> m_workers s' = m_workers s"
proof (induction "pending s" arbitrary: s rule: less_induct)
  case less
  show ?case
  proof (cases "pending s = 0")
    case False
    then obtain a t ts where a: "a < length (s_heap s)" "s_tasks s a = t # ts"
      unfolding pending_def by (auto simp: neq_Nil_conv)
    obtain conn' where c: "run_task api t (s_heap s ! a) = Inr conn'" using run_task_total by blast
    let ?s = "conn_ran False a conn' (s\<lparr>s_tasks := (s_tasks s)(a := ts)\<rparr>)"
    have "server_step env api queue s ?s" using less.prems(2) a c by (intro server_step.task)
    moreover have inv: "server_inv ?s" by (rule server_inv_task [OF less.prems(1) a c])
    moreover have workers: "m_workers ?s = m_workers s" by (simp add: conn_ran_eq)
    moreover obtain s' where "(server_step env api queue)\<^sup>*\<^sup>* ?s s'" "server_inv s'" "pending s' = 0"
      "m_workers s' = m_workers ?s"
      using less.hyps [OF pending_pop [OF a] inv] less.prems(2) workers by auto
    ultimately show ?thesis by (auto intro: converse_rtranclp_into_rtranclp)
  qed (use less.prems in blast)
qed

lemma reach_quiescence:
  assumes "server_inv s" and "0 < m_workers s"
  shows "\<exists>s'. (server_step env api queue)\<^sup>*\<^sup>* s s' \<and> quiescent s'"
proof -
  obtain s1 where s1: "(server_step env api queue)\<^sup>*\<^sup>* s s1" "server_inv s1" "pending s1 = 0"
    "m_workers s1 = m_workers s"
    using run_tasks [OF assms] by blast
  then obtain s2 where "(server_step env api queue)\<^sup>*\<^sup>* s1 s2" "s_strand s2 = []" "s_tasks s2 = s_tasks s1"
    using run_strand [of s1 env api queue] assms(2) by auto
  with s1 pending_zero [OF s1(2,3)] show ?thesis
    by (auto simp: quiescent_def intro: rtranclp_trans)
qed

lemma quiescent_drained:
  "server_inv s \<Longrightarrow> m_draining s \<Longrightarrow> quiescent s \<Longrightarrow> m_connections s = []"
  using server_invD(2) [of s] by (cases "m_connections s") (auto simp: entry_ok_def quiescent_def)

section \<open>When closing from the signal handler faults\<close>

definition closes_now :: "(addr \<Rightarrow> bool) \<Rightarrow> 'q Server \<Rightarrow> addr \<Rightarrow> bool" where
  "closes_now run_now s a \<longleftrightarrow> run_now a \<and> s_tasks s a = [] \<and> m_socket_open (s_heap s ! a)"

lemma close_all_fault:
  "entries_ok es s \<Longrightarrow> distinct (map snd es) \<Longrightarrow>
     (if \<exists>(i, a) \<in> set es. closes_now run_now s a
      then close_all api run_now es s = Inl IteratorInvalidated
      else \<exists>s'. close_all api run_now es s = Inr s')"
proof (induction es arbitrary: s)
  case (Cons e es)
  obtain i a where e: "e = (i, a)" by (cases e)
  from Cons.prems(1) e have a: "conn_ready (s_tasks s a) (s_heap s ! a)"
    "m_connId (s_heap s ! a) \<in> fst ` set (m_connections s)" and rest: "entries_ok es s"
    by (auto simp: entries_ok_def)
  show ?case
  proof (cases "run_now a \<and> s_tasks s a = []")
    case True
    obtain conn' where c: "Close api (\<lambda>_. True) (s_heap s ! a) = Inr conn'"
      by (simp add: Close_def CloseUnderLock_eq)
    from True a(1) have "conn_ready [] (s_heap s ! a)" by simp
    note inl = close_inline [OF this a(2) c]
    then show ?thesis using True c e Cons.IH [OF rest] Cons.prems(2)
      by (cases "m_socket_open (s_heap s ! a)") (simp_all add: closes_now_def Let_def)
  next
    case False
    let ?s = "s\<lparr>s_tasks := (s_tasks s)(a := s_tasks s a @ [TaskClose])\<rparr>"
    have "entries_ok es ?s"
      using rest conn_ready_extended [OF a(1), of 1] by (auto simp: entries_ok_def)
    moreover have "closes_now run_now ?s b = closes_now run_now s b" if "(j, b) \<in> set es" for j b
    proof -
      have "b \<noteq> a" using Cons.prems(2) e that by force
      then show ?thesis by (simp add: closes_now_def)
    qed
    moreover have "\<not> closes_now run_now s a" using False by (auto simp: closes_now_def)
    ultimately show ?thesis
      using Cons.IH [of ?s] Cons.prems(2) e False by (auto split: if_splits)
  qed
qed simp

lemma connections_distinct_addrs:
  assumes "server_inv s"
  shows "distinct (map snd (m_connections s))"
proof -
  have "inj_on snd (set (m_connections s))"
  proof (rule inj_onI)
    fix x y assume "x \<in> set (m_connections s)" "y \<in> set (m_connections s)" "snd x = snd y"
    with server_invD(2) [OF assms] show "x = y"
      by (metis entry_ok_def prod.collapse)
  qed
  moreover have "distinct (m_connections s)"
    using server_invD(1) [OF assms] by (simp add: distinct_map)
  ultimately show ?thesis by (simp add: distinct_map)
qed

lemma HandleSignals_fault:
  assumes "server_inv s" and "terminal res"
  shows "if \<exists>(i, a) \<in> set (m_connections s). closes_now run_now s a
    then HandleSignals_turn api run_now res s = Inl IteratorInvalidated
    else \<exists>s'. HandleSignals_turn api run_now res s = Inr s'"
proof -
  let ?s = "s\<lparr>m_draining := True, m_acceptor_open := False\<rparr>"
  have "closes_now run_now ?s = closes_now run_now s" by (simp add: closes_now_def fun_eq_iff)
  with close_all_fault [OF entries_ok_draining [OF assms(1)] connections_distinct_addrs [OF assms(1)],
      of run_now api]
  show ?thesis unfolding HandleSignals_terminal_eq [OF assms(2)] by (auto simp: Let_def)
qed

section \<open>The connections of a server\<close>

text \<open>Every connection of a running server goes through the steps of a connection on its own.\<close>

lemma server_conn_reachable:
  "server_reachable env api queue config s \<Longrightarrow> a < length (s_heap s) \<Longrightarrow>
     conn_reachable env api (of_nat (a + 1)) queue (s_heap s ! a)"
proof (induction rule: server_reachable.induct)
  case (start listen_ok s)
  then show ?case by (auto simp: ServeForever_def Server_new_def Let_def split: if_splits)
next
  case (step s s')
  note inv = server_reachable_inv [OF step(1)]
  from step(2) inv show ?case
  proof (cases rule: server_step_cases')
    case (accept res)
    have next_id: "m_nextConnId s = of_nat (length (s_heap s) + 1)"
      using server_reachable_ids [OF step(1)] by (simp add: ids_inv_def)
    show ?thesis
      using step accept next_id conn_reachable.start [of env api "m_nextConnId s" queue]
      by (cases res)
        (auto simp: AcceptConnections_turn_def Let_def nth_append less_Suc_eq split: if_splits)
  next
    case (handler b conn')
    with step show ?thesis
      by (auto simp: nth_list_update intro: conn_reachable.step)
  qed (use step in auto)
qed

end
