(* ===== verification/Kqueue_Watcher.thy ===== *)
theory Kqueue_Watcher
  imports Birch_Prelude "HOL-Library.Multiset"
begin

text \<open>
  The kqueue file watcher: \<open>util/KqueueFileWatcher.h\<close>, \<open>util/KqueueFileWatcher.cc\<close>.

  The operating system is outside the repository: what a system call answers is an argument
  of the operation that makes it (the descriptor \<open>open\<close> returned or \<open>-1\<close>, whether \<open>kevent\<close>
  accepted a registration, the events it delivered, the clock), and the part of the kernel's
  state the code is responsible for, the descriptors it has open and the registrations in
  its queue, is the record \<open>kernel\<close>. Closing a descriptor removes its registration. A word
  of \<open>NOTE_\<close> flags is the list of its flags. Every operation holds \<open>m_mutex\<close> while it uses
  the shared fields, so it is one step; the locals of the thread function \<open>Run\<close> are
  fields. Callbacks that were called are recorded in \<open>kq_fired\<close>. Times are in nanoseconds.
\<close>

section \<open>The kernel\<close>

datatype vnode_note = NOTE_DELETE | NOTE_RENAME | NOTE_REVOKE | NOTE_WRITE | NOTE_EXTEND | NOTE_ATTRIB

type_synonym WatchId = "64 word"

record kernel =
  k_open :: "int list"
  k_armed :: "(int \<times> WatchId \<times> vnode_note list) list"

definition sys_open :: "int \<Rightarrow> kernel \<Rightarrow> kernel" where
  "sys_open fd k = (if fd = -1 then k else k\<lparr>k_open := fd # k_open k\<rparr>)"

definition sys_close :: "int \<Rightarrow> kernel \<Rightarrow> kernel" where
  "sys_close fd k = k\<lparr>k_open := remove1 fd (k_open k), k_armed := AList.delete fd (k_armed k)\<rparr>"

definition kevent_add :: "bool \<Rightarrow> int \<Rightarrow> vnode_note list \<Rightarrow> WatchId \<Rightarrow> kernel \<Rightarrow> bool \<times> kernel" where
  "kevent_add ok fd flags udata k =
     (if ok then (True, k\<lparr>k_armed := AList.update fd (udata, flags) (k_armed k)\<rparr>) else (False, k))"

definition kevent_delete :: "int \<Rightarrow> kernel \<Rightarrow> kernel" where
  "kevent_delete fd k = k\<lparr>k_armed := AList.delete fd (k_armed k)\<rparr>"

section \<open>Watches\<close>

definition kFileFlags :: "vnode_note list" where
  "kFileFlags = [NOTE_DELETE, NOTE_RENAME, NOTE_REVOKE, NOTE_WRITE, NOTE_EXTEND, NOTE_ATTRIB]"

definition kDirFlags :: "vnode_note list" where
  "kDirFlags = [NOTE_WRITE, NOTE_DELETE, NOTE_RENAME]"

definition kCoalesceWindow :: int where
  "kCoalesceWindow = 50 * 1000000"

record 'cb Watch =
  watch_id :: WatchId
  watch_path :: string
  parentPath :: string
  fileFd :: int
  dirFd :: int
  callback :: 'cb

definition ArmFile :: "bool \<Rightarrow> 'cb Watch \<Rightarrow> kernel \<Rightarrow> bool \<times> kernel" where
  "ArmFile ok watch k =
     (if fileFd watch = -1 then (False, k)
      else kevent_add ok (fileFd watch) kFileFlags (watch_id watch) k)"

definition ArmDir :: "bool \<Rightarrow> 'cb Watch \<Rightarrow> kernel \<Rightarrow> bool \<times> kernel" where
  "ArmDir ok watch k =
     (if dirFd watch = -1 then (False, k)
      else kevent_add ok (dirFd watch) kDirFlags (watch_id watch) k)"

definition DisarmFile :: "'cb Watch \<Rightarrow> kernel \<Rightarrow> 'cb Watch \<times> kernel" where
  "DisarmFile watch k =
     (if fileFd watch = -1 then (watch, k)
      else (watch\<lparr>fileFd := -1\<rparr>, sys_close (fileFd watch) (kevent_delete (fileFd watch) k)))"

definition DisarmDir :: "'cb Watch \<Rightarrow> kernel \<Rightarrow> 'cb Watch \<times> kernel" where
  "DisarmDir watch k =
     (if dirFd watch = -1 then (watch, k)
      else (watch\<lparr>dirFd := -1\<rparr>, sys_close (dirFd watch) (kevent_delete (dirFd watch) k)))"

definition DisarmWatch :: "'cb Watch \<Rightarrow> kernel \<Rightarrow> 'cb Watch \<times> kernel" where
  "DisarmWatch watch k = (case DisarmFile watch k of (watch, k) \<Rightarrow> DisarmDir watch k)"

text \<open>\<open>reopen\<close> is the answer of \<open>open\<close> and whether the registration succeeds.\<close>

definition TryOpenAndArmFile ::
  "int \<times> bool \<Rightarrow> 'cb Watch \<Rightarrow> kernel \<Rightarrow> bool \<times> 'cb Watch \<times> kernel" where
  "TryOpenAndArmFile reopen watch k =
     (if fileFd watch \<noteq> -1 then (True, watch, k)
      else
        (let fd = fst reopen; k = sys_open fd k in
           if fd = -1 then (False, watch, k)
           else
             (let watch = watch\<lparr>fileFd := fd\<rparr> in
                case ArmFile (snd reopen) watch k of
                  (False, k) \<Rightarrow> (False, watch\<lparr>fileFd := -1\<rparr>, sys_close fd k)
                | (True, k) \<Rightarrow> (True, watch, k))))"

definition HandleFileEvent ::
  "int \<times> bool \<Rightarrow> vnode_note list \<Rightarrow> 'cb Watch \<Rightarrow> kernel \<Rightarrow> bool \<times> 'cb Watch \<times> kernel" where
  "HandleFileEvent reopen fflags watch k =
     (if set fflags \<inter> {NOTE_DELETE, NOTE_RENAME, NOTE_REVOKE} \<noteq> {}
      then (case DisarmFile watch k of (watch, k) \<Rightarrow> TryOpenAndArmFile reopen watch k)
      else (set fflags \<inter> {NOTE_WRITE, NOTE_EXTEND, NOTE_ATTRIB} \<noteq> {}, watch, k))"

definition HandleDirEvent ::
  "int \<times> bool \<Rightarrow> 'cb Watch \<Rightarrow> kernel \<Rightarrow> bool \<times> 'cb Watch \<times> kernel" where
  "HandleDirEvent reopen watch k =
     (if fileFd watch = -1 then TryOpenAndArmFile reopen watch k else (False, watch, k))"

section \<open>The watcher\<close>

record 'cb KqueueFileWatcher =
  m_kqueue :: int
  kq_kernel :: kernel
  m_shutdown :: bool
  m_nextWatchId :: WatchId
  m_watches :: "(WatchId \<times> 'cb Watch) list"
  m_pendingUnwatches :: "WatchId list"
  kq_dirty :: "WatchId list"
  kq_deadline :: "int option"
  kq_fired :: "(WatchId \<times> 'cb \<times> string) list"

definition KqueueFileWatcher_new :: "int \<Rightarrow> kernel \<Rightarrow> 'cb KqueueFileWatcher" where
  "KqueueFileWatcher_new kq k =
     \<lparr>m_kqueue = kq, kq_kernel = k, m_shutdown = False, m_nextWatchId = 1,
      m_watches = [], m_pendingUnwatches = [], kq_dirty = [], kq_deadline = None, kq_fired = []\<rparr>"

text \<open>\<open>Create\<close>: the answer of \<open>kqueue\<close> with its error, and the error of registering the wake
  event, if any. Failing to set the close-on-exec flag is only logged.\<close>

definition KqueueFileWatcher_Create ::
  "int \<times> int \<Rightarrow> int option \<Rightarrow> kernel \<Rightarrow> 'cb KqueueFileWatcher status_or \<times> kernel" where
  "KqueueFileWatcher_Create kqueue_answer wake_errno k =
     (let kq = fst kqueue_answer; k = sys_open kq k in
        if kq = -1 then (Inl (ErrnoToStatus (snd kqueue_answer) ''kqueue() failed''), k)
        else
          (case wake_errno of
             Some e \<Rightarrow> (Inl (ErrnoToStatus e ''kevent() failed''), sys_close kq k)
           | None \<Rightarrow> (Inr (KqueueFileWatcher_new kq k), k)))"

record fs_answers =
  canonical :: string
  parent_of :: string
  dir_open :: int
  dir_errno :: int
  dir_armed :: bool
  arm_errno :: int
  file_open :: "int \<times> bool"

record WatchHandle =
  h_id :: WatchId
  h_watcher :: bool

definition Watch_new :: "WatchId \<Rightarrow> string \<Rightarrow> string \<Rightarrow> int \<Rightarrow> int \<Rightarrow> 'cb \<Rightarrow> 'cb Watch" where
  "Watch_new i path parent fd1 fd2 cb =
     \<lparr>watch_id = i, watch_path = path, parentPath = parent, fileFd = fd1, dirFd = fd2, callback = cb\<rparr>"

text \<open>\<open>emplace\<close> would give the existing watch back if the identifier were in use.\<close>

definition WatchFile ::
  "fs_answers \<Rightarrow> 'cb \<Rightarrow> 'cb KqueueFileWatcher \<Rightarrow> WatchHandle status_or \<times> 'cb KqueueFileWatcher" where
  "WatchFile ans cb st =
     (let canon = canonical ans;
          dir = (if parent_of ans = [] then ''.'' else parent_of ans);
          fd = dir_open ans;
          st = st\<lparr>kq_kernel := sys_open fd (kq_kernel st)\<rparr>
      in if fd = -1 then (Inl (ErrnoToStatus (dir_errno ans) ''open() failed''), st)
         else
           (let i = m_nextWatchId st + 1;
                watches = lhm_emplace i (Watch_new i canon dir (-1) fd cb) (m_watches st);
                watch = the (map_of watches i);
                st = st\<lparr>m_nextWatchId := i\<rparr>
            in case ArmDir (dir_armed ans) watch (kq_kernel st) of
                 (False, k) \<Rightarrow>
                   (Inl (ErrnoToStatus (arm_errno ans) ''ArmDir() failed''),
                    st\<lparr>kq_kernel := sys_close (dirFd watch) k, m_watches := AList.delete i watches\<rparr>)
               | (True, k) \<Rightarrow>
                   (case TryOpenAndArmFile (file_open ans) watch k of
                      (_, watch, k) \<Rightarrow>
                        (Inr \<lparr>h_id = i, h_watcher = True\<rparr>,
                         st\<lparr>kq_kernel := k, m_watches := AList.update i watch watches\<rparr>))))"

definition CloseWatch :: "WatchId \<Rightarrow> 'cb KqueueFileWatcher \<Rightarrow> 'cb KqueueFileWatcher" where
  "CloseWatch i st = st\<lparr>m_pendingUnwatches := m_pendingUnwatches st @ [i]\<rparr>"

text \<open>\<open>Unwatch\<close> of a handle, also run by its destructor; \<open>alive\<close> tells whether the watcher
  still exists.\<close>

definition Unwatch ::
  "bool \<Rightarrow> WatchHandle \<times> 'cb KqueueFileWatcher \<Rightarrow> WatchHandle \<times> 'cb KqueueFileWatcher" where
  "Unwatch alive hs =
     (case hs of (h, st) \<Rightarrow>
        if h_watcher h \<and> alive then (h\<lparr>h_watcher := False\<rparr>, CloseWatch (h_id h) st) else (h, st))"

definition unwatch_one :: "WatchId \<Rightarrow> 'cb KqueueFileWatcher \<Rightarrow> 'cb KqueueFileWatcher" where
  "unwatch_one i st =
     (case map_of (m_watches st) i of
        None \<Rightarrow> st
      | Some watch \<Rightarrow>
          (case DisarmWatch watch (kq_kernel st) of
             (_, k) \<Rightarrow> st\<lparr>kq_kernel := k, m_watches := AList.delete i (m_watches st)\<rparr>))"

definition handle_unwatches :: "'cb KqueueFileWatcher \<Rightarrow> 'cb KqueueFileWatcher" where
  "handle_unwatches st =
     (fold unwatch_one (m_pendingUnwatches st) st)\<lparr>m_pendingUnwatches := []\<rparr>"

text \<open>The timeout handed to \<open>kevent\<close>: seconds and nanoseconds, or none.\<close>

definition kevent_timeout :: "int \<Rightarrow> int option \<Rightarrow> (int \<times> int) option" where
  "kevent_timeout now deadline =
     (case deadline of
        None \<Rightarrow> None
      | Some d \<Rightarrow>
          (let remaining = d - now;
               remaining = (if remaining < 0 then 0 else remaining);
               tv_sec = remaining div 1000000000
           in Some (tv_sec, remaining - tv_sec * 1000000000)))"

datatype kevent = WakeEvent | VnodeEvent (ident: int) (udata: WatchId) (fflags: "vnode_note list")

text \<open>One event: \<open>reopen\<close> answers an \<open>open\<close> it may cause, \<open>now\<close> is the clock.\<close>

definition handle_event ::
  "kevent \<Rightarrow> int \<times> bool \<Rightarrow> int \<Rightarrow> 'cb KqueueFileWatcher \<Rightarrow> 'cb KqueueFileWatcher" where
  "handle_event ev reopen now st =
     (case ev of
        WakeEvent \<Rightarrow> st
      | VnodeEvent idnt i flags \<Rightarrow>
          (case map_of (m_watches st) i of
             None \<Rightarrow> st
           | Some watch \<Rightarrow>
               if idnt \<noteq> fileFd watch \<and> idnt \<noteq> dirFd watch then st
               else
                 (case (if idnt = fileFd watch then HandleFileEvent reopen flags watch (kq_kernel st)
                        else HandleDirEvent reopen watch (kq_kernel st)) of
                    (changed, watch, k) \<Rightarrow>
                      (let st = st\<lparr>kq_kernel := k, m_watches := AList.update i watch (m_watches st)\<rparr>
                       in if changed
                          then st\<lparr>kq_dirty := (if i \<in> set (kq_dirty st) then kq_dirty st else kq_dirty st @ [i]),
                                  kq_deadline := (if kq_deadline st = None then Some (now + kCoalesceWindow)
                                                  else kq_deadline st)\<rparr>
                          else st))))"

text \<open>The dirty set is a hash set, traversed in the order \<open>iter\<close> gives.\<close>

definition FireDirty ::
  "(WatchId list \<Rightarrow> WatchId list) \<Rightarrow> 'cb KqueueFileWatcher \<Rightarrow> 'cb KqueueFileWatcher" where
  "FireDirty iter st =
     st\<lparr>kq_fired := kq_fired st @
          List.map_filter (\<lambda>i. map_option (\<lambda>w. (i, callback w, watch_path w)) (map_of (m_watches st) i))
            (iter (kq_dirty st))\<rparr>"

datatype kevent_answer = KeventFailed | KeventReady "(kevent \<times> (int \<times> bool) \<times> int) list"

text \<open>One turn of the loop of \<open>Run\<close>: pending unwatches, the events \<open>kevent\<close> returned, and
  the callbacks once the window has passed (\<open>now\<close> is the clock at that point).\<close>

definition fire_if_due ::
  "(WatchId list \<Rightarrow> WatchId list) \<Rightarrow> int \<Rightarrow> 'cb KqueueFileWatcher \<Rightarrow> 'cb KqueueFileWatcher" where
  "fire_if_due iter now st =
     (case kq_deadline st of
        None \<Rightarrow> st
      | Some d \<Rightarrow> if d \<le> now then (FireDirty iter st)\<lparr>kq_dirty := [], kq_deadline := None\<rparr> else st)"

definition Run_turn ::
  "(WatchId list \<Rightarrow> WatchId list) \<Rightarrow> kevent_answer \<Rightarrow> int \<Rightarrow> 'cb KqueueFileWatcher
     \<Rightarrow> 'cb KqueueFileWatcher" where
  "Run_turn iter ans now st =
     (let st = handle_unwatches st in
        case ans of
          KeventFailed \<Rightarrow> st
        | KeventReady evs \<Rightarrow>
            fire_if_due iter now (fold (\<lambda>(ev, reopen, t). handle_event ev reopen t) evs st))"

definition KqueueFileWatcher_destroy :: "'cb KqueueFileWatcher \<Rightarrow> 'cb KqueueFileWatcher" where
  "KqueueFileWatcher_destroy st =
     (let st = st\<lparr>m_shutdown := True\<rparr>;
          k = fold (\<lambda>(i, watch) k. snd (DisarmWatch watch k)) (m_watches st) (kq_kernel st)
      in st\<lparr>kq_kernel := sys_close (m_kqueue st) k, m_watches := []\<rparr>)"

section \<open>Descriptors held by watches\<close>

definition fds_of :: "'cb Watch \<Rightarrow> int multiset" where
  "fds_of w = filter_mset (\<lambda>fd. fd \<noteq> -1) {#fileFd w, dirFd w#}"

definition held :: "(WatchId \<times> 'cb Watch) list \<Rightarrow> int multiset" where
  "held ws = sum_list (map (\<lambda>(i, w). fds_of w) ws)"

lemma held_simps [simp]:
  "held [] = {#}" "held ((i, w) # ws) = fds_of w + held ws" "held (xs @ ys) = held xs + held ys"
  by (simp_all add: held_def)

lemma held_split:
  "distinct (map fst ws) \<Longrightarrow> map_of ws i = Some w \<Longrightarrow>
     held ws = fds_of w + held (AList.delete i ws)
     \<and> held (AList.update i w' ws) = fds_of w' + held (AList.delete i ws)"
proof (induction ws)
  case (Cons x ws)
  obtain j v where x: "x = (j, v)" by (cases x)
  show ?case
  proof (cases "i = j")
    case True
    with Cons.prems x have "AList.delete i ws = ws" by (intro AList.delete_id) auto
    with True Cons.prems x show ?thesis by auto
  next
    case False
    with Cons x show ?thesis by (auto simp: add_ac)
  qed
qed simp

text \<open>An operation on a watch trades the watch's old descriptors for its new ones.\<close>

definition balanced :: "'cb Watch \<Rightarrow> kernel \<Rightarrow> 'cb Watch \<Rightarrow> kernel \<Rightarrow> bool" where
  "balanced w k w' k' \<longleftrightarrow>
     watch_id w' = watch_id w
     \<and> (\<forall>R. mset (k_open k) = fds_of w + R \<longrightarrow> mset (k_open k') = fds_of w' + R)"

lemma balanced_refl [simp]: "balanced w k w k"
  by (simp add: balanced_def)

lemma balancedD:
  "balanced w k w' k' \<Longrightarrow> mset (k_open k) = fds_of w + R \<Longrightarrow> mset (k_open k') = fds_of w' + R"
  by (simp add: balanced_def)

lemma balanced_trans: "balanced w k w1 k1 \<Longrightarrow> balanced w1 k1 w2 k2 \<Longrightarrow> balanced w k w2 k2"
  by (simp add: balanced_def)

lemma balanced_DisarmFile: "DisarmFile w k = (w', k') \<Longrightarrow> balanced w k w' k'"
  by (auto simp: DisarmFile_def balanced_def sys_close_def kevent_delete_def fds_of_def split: if_splits)

lemma balanced_DisarmDir: "DisarmDir w k = (w', k') \<Longrightarrow> balanced w k w' k'"
  by (auto simp: DisarmDir_def balanced_def sys_close_def kevent_delete_def fds_of_def split: if_splits)

lemma fds_DisarmWatch:
  assumes "DisarmWatch w k = (w', k')"
  shows "balanced w k w' k'" and "fds_of w' = {#}"
proof -
  obtain w1 k1 where d: "DisarmFile w k = (w1, k1)" by (metis surj_pair)
  with assms have "DisarmDir w1 k1 = (w', k')" by (simp add: DisarmWatch_def)
  with d balanced_DisarmFile balanced_DisarmDir balanced_trans show "balanced w k w' k'" by blast
  show "fds_of w' = {#}"
    using d \<open>DisarmDir w1 k1 = (w', k')\<close>
    by (auto simp: DisarmFile_def DisarmDir_def fds_of_def split: if_splits)
qed

lemma kevent_add_open: "kevent_add ok fd fl i k = (r, k') \<Longrightarrow> k_open k' = k_open k"
  by (auto simp: kevent_add_def split: if_splits)

lemma balanced_TryOpen:
  "TryOpenAndArmFile reopen w k = (r, w', k') \<Longrightarrow> balanced w k w' k'"
  by (cases reopen)
    (auto simp: TryOpenAndArmFile_def balanced_def sys_open_def sys_close_def ArmFile_def fds_of_def Let_def
      split: if_splits prod.splits bool.splits dest!: kevent_add_open)

lemma balanced_HandleFileEvent:
  "HandleFileEvent reopen fl w k = (r, w', k') \<Longrightarrow> balanced w k w' k'"
  by (auto simp: HandleFileEvent_def split: if_splits prod.splits
      intro: balanced_trans [OF balanced_DisarmFile balanced_TryOpen])

lemma balanced_HandleDirEvent:
  "HandleDirEvent reopen w k = (r, w', k') \<Longrightarrow> balanced w k w' k'"
  by (auto simp: HandleDirEvent_def split: if_splits intro: balanced_TryOpen)

section \<open>Invariant\<close>

text \<open>
  \<open>n\<close> counts the identifiers handed out. The descriptors open are those the watches hold;
  there is a deadline exactly while some watch is dirty.
\<close>

definition issued :: "nat \<Rightarrow> WatchId \<Rightarrow> bool" where
  "issued n i \<longleftrightarrow> (\<exists>m. 1 < m \<and> m \<le> n + 1 \<and> i = of_nat m)"

definition watches_inv :: "nat \<Rightarrow> 'cb KqueueFileWatcher \<Rightarrow> bool" where
  "watches_inv n st \<longleftrightarrow>
     distinct (map fst (m_watches st))
     \<and> mset (k_open (kq_kernel st)) = add_mset (m_kqueue st) (held (m_watches st))
     \<and> m_nextWatchId st = of_nat (n + 1)
     \<and> (\<forall>(i, w) \<in> set (m_watches st). watch_id w = i \<and> issued n i)"

definition dirty_inv :: "'cb KqueueFileWatcher \<Rightarrow> bool" where
  "dirty_inv st \<longleftrightarrow> distinct (kq_dirty st) \<and> (kq_dirty st = [] \<longleftrightarrow> kq_deadline st = None)"

abbreviation fresh_kernel :: kernel where
  "fresh_kernel \<equiv> \<lparr>k_open = [], k_armed = []\<rparr>"

lemma watches_inv_new:
  "KqueueFileWatcher_Create kq wake fresh_kernel = (Inr st, k) \<Longrightarrow> watches_inv 0 st \<and> dirty_inv st"
  by (auto simp: watches_inv_def dirty_inv_def KqueueFileWatcher_Create_def KqueueFileWatcher_new_def
      sys_open_def Let_def split: if_splits option.splits)

lemma watches_inv_unwatch_one:
  assumes "watches_inv n st"
  shows "watches_inv n (unwatch_one i st)"
proof (cases "map_of (m_watches st) i")
  case (Some w)
  obtain w' k' where d: "DisarmWatch w (kq_kernel st) = (w', k')" by (metis surj_pair)
  have "mset (k_open (kq_kernel st)) = fds_of w + add_mset (m_kqueue st) (held (AList.delete i (m_watches st)))"
    using assms held_split [of "m_watches st" i w w] Some by (simp add: watches_inv_def)
  from balancedD [OF fds_DisarmWatch(1) [OF d] this] fds_DisarmWatch(2) [OF d]
  have "mset (k_open k') = add_mset (m_kqueue st) (held (AList.delete i (m_watches st)))" by simp
  moreover have "distinct (map fst (AList.delete i (m_watches st)))"
    using assms by (intro AList.distinct_delete) (simp add: watches_inv_def)
  moreover have "set (AList.delete i (m_watches st)) \<subseteq> set (m_watches st)"
    by (auto simp: AList.delete_eq)
  ultimately show ?thesis
    using assms Some d by (auto simp: watches_inv_def unwatch_one_def)
qed (use assms in \<open>simp add: unwatch_one_def\<close>)

lemma watches_inv_handle_unwatches: "watches_inv n st \<Longrightarrow> watches_inv n (handle_unwatches st)"
proof -
  have "watches_inv n st \<Longrightarrow> watches_inv n (fold unwatch_one is st)" for "is"
    by (induction "is" arbitrary: st) (simp_all add: watches_inv_unwatch_one)
  then show "watches_inv n st \<Longrightarrow> watches_inv n (handle_unwatches st)"
    by (simp add: handle_unwatches_def watches_inv_def)
qed

lemma AList_update_same_keys:
  "map_of ws i = Some w \<Longrightarrow> map fst (AList.update i w' ws) = map fst ws"
  by (induction ws) (auto split: if_splits)

lemma set_AList_update: "set (AList.update i w ws) \<subseteq> insert (i, w) (set ws)"
  by (induction ws) auto

lemma watches_inv_update:
  assumes inv: "watches_inv n st" and w: "map_of (m_watches st) i = Some w"
    and bal: "balanced w (kq_kernel st) w' k'"
  shows "watches_inv n (st\<lparr>kq_kernel := k', m_watches := AList.update i w' (m_watches st)\<rparr>)"
proof -
  have d: "distinct (map fst (m_watches st))" using inv by (simp add: watches_inv_def)
  have "mset (k_open (kq_kernel st)) = fds_of w + add_mset (m_kqueue st) (held (AList.delete i (m_watches st)))"
    using inv held_split [OF d w, of w'] by (simp add: watches_inv_def)
  from balancedD [OF bal this]
  have "mset (k_open k') = add_mset (m_kqueue st) (held (AList.update i w' (m_watches st)))"
    using held_split [OF d w, of w'] by simp
  moreover have "watch_id v = j \<and> issued n j" if "(j, v) \<in> set (AList.update i w' (m_watches st))" for j v
  proof (cases "(j, v) = (i, w')")
    case True
    then show ?thesis
      using inv bal map_of_SomeD [OF w] by (auto simp: watches_inv_def balanced_def)
  next
    case False
    then have "(j, v) \<in> set (m_watches st)" using that set_AList_update by fastforce
    then show ?thesis using inv by (auto simp: watches_inv_def)
  qed
  ultimately show ?thesis
    using inv AList_update_same_keys [OF w, of w'] d by (auto simp: watches_inv_def)
qed

lemma handle_event_cases:
  obtains (ignored) "handle_event ev reopen now st = st"
  | (handled) i w changed w' k' where "map_of (m_watches st) i = Some w" "balanced w (kq_kernel st) w' k'"
      "handle_event ev reopen now st =
        (let st = st\<lparr>kq_kernel := k', m_watches := AList.update i w' (m_watches st)\<rparr>
         in if changed
            then st\<lparr>kq_dirty := (if i \<in> set (kq_dirty st) then kq_dirty st else kq_dirty st @ [i]),
                    kq_deadline := (if kq_deadline st = None then Some (now + kCoalesceWindow)
                                    else kq_deadline st)\<rparr>
            else st)"
proof (cases ev)
  case (VnodeEvent idnt i flags)
  show thesis
  proof (cases "map_of (m_watches st) i")
    case (Some w)
    show thesis
    proof (cases "idnt \<noteq> fileFd w \<and> idnt \<noteq> dirFd w")
      case False
      obtain changed w' k' where r: "(if idnt = fileFd w then HandleFileEvent reopen flags w (kq_kernel st)
          else HandleDirEvent reopen w (kq_kernel st)) = (changed, w', k')"
        by (metis prod_cases3)
      then have "balanced w (kq_kernel st) w' k'"
        by (auto split: if_splits intro: balanced_HandleFileEvent balanced_HandleDirEvent)
      with False Some VnodeEvent r show thesis
        by (intro handled [of i w w' k' changed]) (auto simp: handle_event_def)
    qed (use VnodeEvent Some ignored in \<open>simp add: handle_event_def\<close>)
  qed (use VnodeEvent ignored in \<open>simp add: handle_event_def\<close>)
qed (use ignored in \<open>simp add: handle_event_def\<close>)

lemma watches_inv_frame [simp]:
  "watches_inv n (st\<lparr>kq_dirty := d\<rparr>) = watches_inv n st"
  "watches_inv n (st\<lparr>kq_deadline := t\<rparr>) = watches_inv n st"
  "watches_inv n (st\<lparr>kq_fired := f\<rparr>) = watches_inv n st"
  "watches_inv n (st\<lparr>m_pendingUnwatches := p\<rparr>) = watches_inv n st"
  by (simp_all add: watches_inv_def)

lemma handle_event_inv:
  assumes "watches_inv n st" and "dirty_inv st"
  shows "watches_inv n (handle_event ev reopen now st)" and "dirty_inv (handle_event ev reopen now st)"
    and "map fst (m_watches (handle_event ev reopen now st)) = map fst (m_watches st)"
    and "kq_fired (handle_event ev reopen now st) = kq_fired st"
proof -
  let ?st = "handle_event ev reopen now st"
  have "watches_inv n ?st \<and> dirty_inv ?st \<and> map fst (m_watches ?st) = map fst (m_watches st)
      \<and> kq_fired ?st = kq_fired st"
  proof (cases rule: handle_event_cases [of ev reopen now st])
    case ignored
    then show ?thesis using assms by simp
  next
    case (handled i w changed w' k')
    from watches_inv_update [OF assms(1) handled(1,2)] show ?thesis
      using assms(2) AList_update_same_keys [OF handled(1), of w']
      unfolding handled(3) by (auto simp: dirty_inv_def Let_def)
  qed
  then show "watches_inv n ?st" "dirty_inv ?st" "map fst (m_watches ?st) = map fst (m_watches st)"
    "kq_fired ?st = kq_fired st" by simp_all
qed

definition handle_events ::
  "(kevent \<times> (int \<times> bool) \<times> int) list \<Rightarrow> 'cb KqueueFileWatcher \<Rightarrow> 'cb KqueueFileWatcher" where
  "handle_events evs st = fold (\<lambda>(ev, reopen, t). handle_event ev reopen t) evs st"

lemma handle_events_inv:
  "watches_inv n st \<Longrightarrow> dirty_inv st \<Longrightarrow>
     watches_inv n (handle_events evs st) \<and> dirty_inv (handle_events evs st)
     \<and> map fst (m_watches (handle_events evs st)) = map fst (m_watches st)
     \<and> kq_fired (handle_events evs st) = kq_fired st"
proof (induction evs arbitrary: st)
  case (Cons e evs)
  obtain ev reopen t where e: "e = (ev, reopen, t)" by (metis prod_cases3)
  have "handle_events (e # evs) st = handle_events evs (handle_event ev reopen t st)"
    by (simp add: handle_events_def e)
  with Cons.IH handle_event_inv [OF Cons.prems, of ev reopen t] show ?case by simp
qed (simp add: handle_events_def)

lemma Run_turn_eq:
  "Run_turn iter ans now st =
     (case ans of KeventFailed \<Rightarrow> handle_unwatches st
      | KeventReady evs \<Rightarrow> fire_if_due iter now (handle_events evs (handle_unwatches st)))"
  by (cases ans) (simp_all add: Run_turn_def handle_events_def Let_def)

lemma fold_unwatch_frame:
  "kq_dirty (fold unwatch_one is st) = kq_dirty st \<and> kq_deadline (fold unwatch_one is st) = kq_deadline st
     \<and> kq_fired (fold unwatch_one is st) = kq_fired st
     \<and> fst ` set (m_watches (fold unwatch_one is st)) = fst ` set (m_watches st) - set is"
proof (induction "is" arbitrary: st)
  case (Cons i "is")
  have "kq_dirty (unwatch_one i st) = kq_dirty st \<and> kq_deadline (unwatch_one i st) = kq_deadline st
      \<and> kq_fired (unwatch_one i st) = kq_fired st
      \<and> fst ` set (m_watches (unwatch_one i st)) = fst ` set (m_watches st) - {i}"
    by (auto simp: unwatch_one_def AList.delete_eq map_of_eq_None_iff split: option.split prod.split)
  with Cons show ?case by auto
qed simp

lemma handle_unwatches_frame [simp]:
  "kq_dirty (handle_unwatches st) = kq_dirty st" "kq_deadline (handle_unwatches st) = kq_deadline st"
  "kq_fired (handle_unwatches st) = kq_fired st" "m_pendingUnwatches (handle_unwatches st) = []"
  "fst ` set (m_watches (handle_unwatches st)) = fst ` set (m_watches st) - set (m_pendingUnwatches st)"
  using fold_unwatch_frame [of "m_pendingUnwatches st" st] by (simp_all add: handle_unwatches_def)

lemma Run_turn_inv:
  assumes "watches_inv n st" and "dirty_inv st"
  shows "watches_inv n (Run_turn iter ans now st) \<and> dirty_inv (Run_turn iter ans now st)
    \<and> fst ` set (m_watches (Run_turn iter ans now st))
        = fst ` set (m_watches st) - set (m_pendingUnwatches st)"
proof -
  let ?st = "handle_unwatches st"
  have "watches_inv n ?st" "dirty_inv ?st"
    using watches_inv_handle_unwatches [OF assms(1)] assms(2) by (simp_all add: dirty_inv_def)
  note evs = handle_events_inv [OF this]
  have keys: "fst ` set (m_watches (handle_events es ?st))
      = fst ` set (m_watches st) - set (m_pendingUnwatches st)" for es
    using evs [of es] handle_unwatches_frame(5) [of st] by (metis list.set_map)
  show ?thesis
  proof (cases ans)
    case KeventFailed
    then show ?thesis using \<open>watches_inv n ?st\<close> \<open>dirty_inv ?st\<close> by (simp add: Run_turn_eq)
  next
    case (KeventReady es)
    then show ?thesis using evs [of es] keys [of es]
      by (auto simp: Run_turn_eq fire_if_due_def FireDirty_def dirty_inv_def split: option.splits)
  qed
qed

section \<open>Watching a file\<close>

lemma issued_fresh:
  assumes "n + 2 < 2 ^ 64" and "issued n i"
  shows "i \<noteq> of_nat (n + 2)"
proof
  assume "i = of_nat (n + 2)"
  from assms(2) obtain m where m: "m \<le> n + 1" "i = of_nat m" by (auto simp: issued_def)
  then have "unat i = m" using assms(1) by (simp add: unat_of_nat)
  moreover have "unat i = n + 2" using \<open>i = of_nat (n + 2)\<close> assms(1) by (simp only: unat_of_nat) simp
  ultimately show False using m(1) by simp
qed

lemma issued_mono: "issued n i \<Longrightarrow> issued (n + 1) i"
  by (auto simp: issued_def)

lemma issued_next: "issued (n + 1) (of_nat (n + 2))"
  unfolding issued_def by (intro exI [of _ "n + 2"]) simp

lemma alist_snoc:
  assumes "k \<notin> fst ` set al"
  shows "map_of (al @ [(k, v)]) k = Some v" and "AList.delete k (al @ [(k, v)]) = al"
    and "AList.update k u (al @ [(k, v)]) = al @ [(k, u)]"
  using assms by (induction al) auto

text \<open>\<open>WatchFile\<close> once the identifier \<open>i\<close> is known to be new, with \<open>w\<close> the watch it starts from.\<close>

definition WatchFile_new ::
  "fs_answers \<Rightarrow> WatchId \<Rightarrow> 'cb Watch \<Rightarrow> 'cb KqueueFileWatcher \<Rightarrow> WatchHandle status_or \<times> 'cb KqueueFileWatcher" where
  "WatchFile_new ans i w st =
     (let k = sys_open (dir_open ans) (kq_kernel st) in
        if dir_open ans = -1 then (Inl (ErrnoToStatus (dir_errno ans) ''open() failed''), st\<lparr>kq_kernel := k\<rparr>)
        else case ArmDir (dir_armed ans) w k of
           (False, k) \<Rightarrow> (Inl (ErrnoToStatus (arm_errno ans) ''ArmDir() failed''),
              st\<lparr>m_nextWatchId := i, kq_kernel := sys_close (dir_open ans) k\<rparr>)
         | (True, k) \<Rightarrow> (case TryOpenAndArmFile (file_open ans) w k of
              (_, w, k) \<Rightarrow> (Inr \<lparr>h_id = i, h_watcher = True\<rparr>,
                st\<lparr>m_nextWatchId := i, kq_kernel := k, m_watches := m_watches st @ [(i, w)]\<rparr>)))"

lemma WatchFile_eq:
  assumes inv: "watches_inv n st" and bound: "n + 2 < 2 ^ 64"
  obtains w where "watch_id w = of_nat (n + 2)" "fileFd w = -1" "dirFd w = dir_open ans"
    "of_nat (n + 2) \<notin> fst ` set (m_watches st)" "WatchFile ans cb st = WatchFile_new ans (of_nat (n + 2)) w st"
proof -
  define i where "i = (of_nat (n + 2) :: WatchId)"
  define parent where "parent = (if parent_of ans = [] then ''.'' else parent_of ans)"
  define w where "w = Watch_new i (canonical ans) parent (-1) (dir_open ans) cb"
  define k where "k = sys_open (dir_open ans) (kq_kernel st)"
  have next_id: "m_nextWatchId st + 1 = i" using inv by (simp add: watches_inv_def i_def)
  have fresh: "i \<notin> fst ` set (m_watches st)"
    using inv issued_fresh [OF bound] unfolding i_def by (force simp: watches_inv_def)
  have emp: "map_of (lhm_emplace i w (m_watches st)) i = Some w"
    "AList.delete i (lhm_emplace i w (m_watches st)) = m_watches st"
    "\<And>v. AList.update i v (lhm_emplace i w (m_watches st)) = m_watches st @ [(i, v)]"
    unfolding lhm_emplace_fresh [OF fresh, of w] by (rule alist_snoc [OF fresh])+
  have dir: "dirFd w = dir_open ans" "fileFd w = -1" "watch_id w = i" by (simp_all add: w_def Watch_new_def)
  have "WatchFile ans cb st = WatchFile_new ans i w st"
    unfolding WatchFile_def WatchFile_new_def Let_def parent_def [symmetric] k_def [symmetric]
    by (simp add: next_id w_def [symmetric] emp dir split: prod.split bool.split)
  with dir fresh show thesis by (intro that [of w]) (simp_all add: i_def)
qed

text \<open>\<open>WatchFile\<close> when the identifier is new: the watch it adds, or no change.\<close>

lemma WatchFile_cases:
  assumes inv: "watches_inv n st" and bound: "n + 2 < 2 ^ 64"
    and call: "WatchFile ans cb st = (r, st')"
  obtains (no_dir) "dir_open ans = -1" "st' = st" "r = Inl (ErrnoToStatus (dir_errno ans) ''open() failed'')"
  | (no_arm) k' where "dir_open ans \<noteq> -1" "k_open k' = k_open (kq_kernel st)"
      "st' = st\<lparr>m_nextWatchId := of_nat (n + 2), kq_kernel := k'\<rparr>"
      "r = Inl (ErrnoToStatus (arm_errno ans) ''ArmDir() failed'')"
  | (added) w k' where "dir_open ans \<noteq> -1"
      "watch_id w = of_nat (n + 2)" "mset (k_open k') = fds_of w + add_mset (m_kqueue st) (held (m_watches st))"
      "st' = st\<lparr>m_nextWatchId := of_nat (n + 2), kq_kernel := k', m_watches := m_watches st @ [(of_nat (n + 2), w)]\<rparr>"
      "r = Inr \<lparr>h_id = of_nat (n + 2), h_watcher = True\<rparr>"
      "of_nat (n + 2) \<notin> fst ` set (m_watches st)"
proof -
  define i where "i = (of_nat (n + 2) :: WatchId)"
  define k where "k = sys_open (dir_open ans) (kq_kernel st)"
  obtain w where dir: "watch_id w = i" "fileFd w = -1" "dirFd w = dir_open ans"
    and fresh: "i \<notin> fst ` set (m_watches st)" and eq: "WatchFile ans cb st = WatchFile_new ans i w st"
    unfolding i_def by (rule WatchFile_eq [OF inv bound])
  note eq = eq [unfolded WatchFile_new_def k_def [symmetric] Let_def]
  show thesis
  proof (cases "dir_open ans = -1")
    case True
    with eq call show thesis by (intro no_dir) (auto simp: k_def sys_open_def)
  next
    case False
    then have k: "k_open k = dir_open ans # k_open (kq_kernel st)" by (simp add: k_def sys_open_def)
    obtain armed k1 where arm: "ArmDir (dir_armed ans) w k = (armed, k1)" by (metis surj_pair)
    with k False have k1: "k_open k1 = dir_open ans # k_open (kq_kernel st)"
      using kevent_add_open by (auto simp: ArmDir_def dir split: if_splits)
    show thesis
    proof (cases armed)
      case True
      obtain r' w' k' where t: "TryOpenAndArmFile (file_open ans) w k1 = (r', w', k')" by (metis prod_cases3)
      have "mset (k_open k1) = fds_of w + add_mset (m_kqueue st) (held (m_watches st))"
        using inv k1 False dir by (simp add: watches_inv_def fds_of_def)
      from balancedD [OF balanced_TryOpen [OF t] this] balanced_TryOpen [OF t]
      have "watch_id w' = i" "mset (k_open k') = fds_of w' + add_mset (m_kqueue st) (held (m_watches st))"
        by (simp_all add: balanced_def dir)
      with False eq call arm True t fresh show thesis
        by (intro added [of w' k']) (auto simp: i_def)
    next
      case nope: False
      with False eq call arm k1 show thesis
        by (intro no_arm [of "sys_close (dir_open ans) k1"]) (auto simp: sys_close_def i_def)
    qed
  qed
qed

lemma WatchFile_inv:
  assumes inv: "watches_inv n st" and bound: "n + 2 < 2 ^ 64" and call: "WatchFile ans cb st = (r, st')"
  shows "watches_inv (if dir_open ans = -1 then n else n + 1) st'"
    and "dirty_inv st \<Longrightarrow> dirty_inv st'" and "kq_fired st' = kq_fired st"
    and "fst ` set (m_watches st') \<subseteq> insert (of_nat (n + 2)) (fst ` set (m_watches st))"
proof -
  have "watches_inv (if dir_open ans = -1 then n else n + 1) st' \<and> (dirty_inv st \<longrightarrow> dirty_inv st')
      \<and> kq_fired st' = kq_fired st
      \<and> fst ` set (m_watches st') \<subseteq> insert (of_nat (n + 2)) (fst ` set (m_watches st))"
    using inv bound call
  proof (cases rule: WatchFile_cases)
    case no_dir
    with inv show ?thesis by auto
  next
    case (no_arm k')
    with inv issued_mono show ?thesis by (auto simp: watches_inv_def dirty_inv_def)
  next
    case (added w k')
    with inv issued_mono issued_next [of n] show ?thesis
      by (auto simp: watches_inv_def dirty_inv_def add_ac)
  qed
  then show "watches_inv (if dir_open ans = -1 then n else n + 1) st'"
    "dirty_inv st \<Longrightarrow> dirty_inv st'" "kq_fired st' = kq_fired st"
    "fst ` set (m_watches st') \<subseteq> insert (of_nat (n + 2)) (fst ` set (m_watches st))" by simp_all
qed

section \<open>The watcher as a state machine\<close>

text \<open>The number in a state counts the identifiers handed out.\<close>

inductive kq_step ::
  "nat \<times> 'cb KqueueFileWatcher \<Rightarrow> nat \<times> 'cb KqueueFileWatcher \<Rightarrow> bool" where
  watch: "WatchFile ans cb st = (r, st') \<Longrightarrow>
     kq_step (n, st) ((if dir_open ans = -1 then n else n + 1), st')"
| unwatch: "kq_step (n, st) (n, CloseWatch i st)"
| turn: "\<not> m_shutdown st \<Longrightarrow> mset (iter (kq_dirty st)) = mset (kq_dirty st) \<Longrightarrow>
     kq_step (n, st) (n, Run_turn iter ans now st)"

definition kq_reachable :: "nat \<Rightarrow> 'cb KqueueFileWatcher \<Rightarrow> bool" where
  "kq_reachable n st \<longleftrightarrow>
     (\<exists>kq wake st0 k. KqueueFileWatcher_Create kq wake fresh_kernel = (Inr st0, k) \<and> kq_step\<^sup>*\<^sup>* (0, st0) (n, st))"

lemma kq_step_inv:
  assumes "kq_step (n, st) (n', st')" and "n' + 2 < 2 ^ 64" and "watches_inv n st" and "dirty_inv st"
  shows "watches_inv n' st' \<and> dirty_inv st' \<and> n \<le> n'"
  using assms(1)
proof cases
  case (watch ans cb r)
  have "n + 2 < 2 ^ 64" using watch assms(2) by (auto split: if_splits)
  from WatchFile_inv(1,2) [OF assms(3) this watch(2)] assms(4) watch(1) show ?thesis by auto
next
  case (unwatch i)
  then show ?thesis using assms(3,4) by (simp add: CloseWatch_def dirty_inv_def)
next
  case (turn iter ans now)
  then show ?thesis using Run_turn_inv [OF assms(3,4)] by blast
qed

lemma kq_steps_inv:
  assumes "kq_step\<^sup>*\<^sup>* a b" and "snd a = st" and "fst a = n" and "watches_inv n st" and "dirty_inv st"
  shows "fst b + 2 < 2 ^ 64 \<Longrightarrow> watches_inv (fst b) (snd b) \<and> dirty_inv (snd b) \<and> n \<le> fst b"
  using assms
proof (induction rule: rtranclp_induct)
  case (step b c)
  have "fst b \<le> fst c" using step.hyps(2) by (cases rule: kq_step.cases) auto
  then have b: "watches_inv (fst b) (snd b)" "dirty_inv (snd b)" "n \<le> fst b"
    using step.IH step.prems by auto
  have "kq_step (fst b, snd b) (fst c, snd c)" using step.hyps(2) by simp
  from kq_step_inv [OF this step.prems(1) b(1,2)] b(3) show ?case by auto
qed auto

lemma kq_reachable_inv:
  "kq_reachable n st \<Longrightarrow> n + 2 < 2 ^ 64 \<Longrightarrow> watches_inv n st \<and> dirty_inv st"
  unfolding kq_reachable_def using kq_steps_inv [of _ "(n, st)"] watches_inv_new by fastforce

section \<open>Properties\<close>

lemma destroy_closes:
  "mset (k_open k) = held ws + R \<Longrightarrow>
     mset (k_open (fold (\<lambda>(i, watch) k. snd (DisarmWatch watch k)) ws k)) = R"
proof (induction ws arbitrary: k)
  case (Cons x ws)
  obtain i w where x: "x = (i, w)" by (cases x)
  obtain w' k' where d: "DisarmWatch w k = (w', k')" by (metis surj_pair)
  have "mset (k_open k) = fds_of w + (held ws + R)" using Cons.prems by (simp add: x add_ac)
  with fds_DisarmWatch [OF d] have "mset (k_open k') = held ws + R" by (simp add: balanced_def)
  with Cons.IH d show ?case by (simp add: x)
qed simp

text \<open>
  The watcher leaks no descriptor: whatever is watched, unwatched and delivered, in any
  order and with any failures of \<open>open\<close> and \<open>kevent\<close>, the descriptors open are exactly those
  the watches refer to and the queue itself, and destroying the watcher closes them all.
\<close>

theorem watcher_leaks_no_descriptor:
  assumes "kq_reachable n st" and "n + 2 < 2 ^ 64"
  shows "mset (k_open (kq_kernel st)) = add_mset (m_kqueue st) (held (m_watches st))
    \<and> k_open (kq_kernel (KqueueFileWatcher_destroy st)) = []"
proof -
  have open_fds: "mset (k_open (kq_kernel st)) = held (m_watches st) + {#m_kqueue st#}"
    using kq_reachable_inv [OF assms] by (simp add: watches_inv_def)
  with destroy_closes [OF open_fds] show ?thesis
    by (simp add: KqueueFileWatcher_destroy_def sys_close_def Let_def)
qed

definition sample_answers :: fs_answers where
  "sample_answers = \<lparr>canonical = ''/etc/birch.toml'', parent_of = ''/etc'', dir_open = 7, dir_errno = 0,
     dir_armed = True, arm_errno = 0, file_open = (8, True)\<rparr>"

definition sample_kq :: "unit KqueueFileWatcher" where
  "sample_kq = KqueueFileWatcher_new 3 \<lparr>k_open = [3], k_armed = []\<rparr>"

definition sample_watcher :: "unit KqueueFileWatcher" where
  "sample_watcher = snd (WatchFile sample_answers () sample_kq)"

lemma sample_kq_created: "KqueueFileWatcher_Create (3, 0) None fresh_kernel = (Inr sample_kq, \<lparr>k_open = [3], k_armed = []\<rparr>)"
  by (simp add: sample_kq_def KqueueFileWatcher_Create_def sys_open_def Let_def)

lemma sample_watcher_reachable: "kq_reachable 1 sample_watcher"
proof -
  have "kq_step (0, sample_kq) ((if dir_open sample_answers = -1 then 0 else 0 + 1), sample_watcher)"
    unfolding sample_watcher_def by (rule kq_step.watch) (rule surjective_pairing)
  with sample_kq_created show ?thesis
    unfolding kq_reachable_def by (force simp: sample_answers_def)
qed

lemma sample_watcher_open: "k_open (kq_kernel sample_watcher) = [8, 7, 3]" "map fst (m_watches sample_watcher) = [2]"
  "m_kqueue sample_watcher = 3"
  by code_simp+

theorem watcher_leaks_no_descriptor_witness:
  "k_open (kq_kernel sample_watcher) = [8, 7, 3] \<and> m_kqueue sample_watcher = 3
   \<and> {#8, 7, 3#} = add_mset 3 (held (m_watches sample_watcher))
   \<and> k_open (kq_kernel (KqueueFileWatcher_destroy sample_watcher)) = []"
  using watcher_leaks_no_descriptor [OF sample_watcher_reachable] sample_watcher_open(1,3)
  by (simp add: add_mset_commute)

text \<open>
  A failed \<open>WatchFile\<close> changes neither the watches nor the set of open descriptors; a
  successful one adds one watch under an identifier never used before.
\<close>

theorem watch_file_outcome:
  assumes "kq_reachable n st" and "n + 2 < 2 ^ 64" and "WatchFile ans cb st = (r, st')"
  shows "case r of
      Inl e \<Rightarrow> m_watches st' = m_watches st \<and> k_open (kq_kernel st') = k_open (kq_kernel st)
    | Inr h \<Rightarrow> h_id h \<notin> fst ` set (m_watches st) \<and> h_id h = of_nat (n + 2)
        \<and> (\<exists>w. m_watches st' = m_watches st @ [(h_id h, w)])"
proof -
  have inv: "watches_inv n st" using kq_reachable_inv [OF assms(1,2)] by blast
  from inv assms(2,3) show ?thesis by (cases rule: WatchFile_cases) simp_all
qed

theorem watch_file_outcome_witness:
  "\<exists>h st'. WatchFile (sample_answers\<lparr>dir_open := 9, file_open := (-1, False)\<rparr>) () sample_watcher = (Inr h, st')
     \<and> h_id h = 3"
proof -
  let ?r = "WatchFile (sample_answers\<lparr>dir_open := 9, file_open := (-1, False)\<rparr>) () sample_watcher"
  have "case fst ?r of Inl e \<Rightarrow> False | Inr h \<Rightarrow> True" by code_simp
  then obtain h where "fst ?r = Inr h" by (auto split: sum.splits)
  then have w: "?r = (Inr h, snd ?r)" by (metis prod.collapse)
  from watch_file_outcome [OF sample_watcher_reachable _ w] w show ?thesis by auto
qed

lemma fire_if_due_fired:
  "kq_fired (fire_if_due iter now st) =
     kq_fired st @
       (case kq_deadline st of
          None \<Rightarrow> []
        | Some d \<Rightarrow> if d \<le> now
            then List.map_filter (\<lambda>i. map_option (\<lambda>w. (i, callback w, watch_path w)) (map_of (m_watches st) i))
                   (iter (kq_dirty st))
            else [])"
  by (simp add: fire_if_due_def FireDirty_def split: option.split)

text \<open>The callbacks a step makes are for watches that exist and are not about to be removed.\<close>

lemma Run_turn_fired:
  assumes "watches_inv n st" and "dirty_inv st" and "i \<notin> fst ` set (m_watches st) - set (m_pendingUnwatches st)"
  shows "filter (\<lambda>e. fst e = i) (kq_fired (Run_turn iter ans now st)) = filter (\<lambda>e. fst e = i) (kq_fired st)"
proof (cases ans)
  case (KeventReady es)
  let ?st = "handle_events es (handle_unwatches st)"
  have "watches_inv n (handle_unwatches st)" "dirty_inv (handle_unwatches st)"
    using watches_inv_handle_unwatches [OF assms(1)] assms(2) by (simp_all add: dirty_inv_def)
  note evs = handle_events_inv [OF this, of es]
  then have "i \<notin> fst ` set (m_watches ?st)"
    using assms(3) handle_unwatches_frame(5) [of st] by (metis list.set_map)
  then have "map_of (m_watches ?st) i = None" by (simp add: map_of_eq_None_iff)
  then have "filter (\<lambda>e. fst e = i) (List.map_filter
      (\<lambda>i. map_option (\<lambda>w. (i, callback w, watch_path w)) (map_of (m_watches ?st) i)) xs) = []" for xs
    by (induction xs) (auto simp: map_filter_simps split: option.split)
  then show ?thesis using evs KeventReady by (simp add: Run_turn_eq fire_if_due_fired split: option.split)
qed (simp add: Run_turn_eq)

lemma kq_step_removed:
  assumes "kq_step (n, st) (n', st')" and "n' + 2 < 2 ^ 64" and "watches_inv n st" and "dirty_inv st"
    and "i \<notin> fst ` set (m_watches st)" and "issued n i"
  shows "i \<notin> fst ` set (m_watches st')
    \<and> filter (\<lambda>e. fst e = i) (kq_fired st') = filter (\<lambda>e. fst e = i) (kq_fired st)"
  using assms(1)
proof cases
  case (watch ans cb r)
  have "n + 2 < 2 ^ 64" using watch assms(2) by (auto split: if_splits)
  from WatchFile_inv(3,4) [OF assms(3) this watch(2)] issued_fresh [OF this assms(6)] assms(5)
  show ?thesis by auto
next
  case (turn iter ans now)
  then show ?thesis
    using Run_turn_inv [OF assms(3,4), of iter ans now] Run_turn_fired [OF assms(3,4), of i iter ans now] assms(5)
    by auto
qed (use assms(5) in \<open>simp add: CloseWatch_def\<close>)

lemma issued_le: "issued n i \<Longrightarrow> n \<le> m \<Longrightarrow> issued m i"
  by (auto simp: issued_def)

lemma kq_steps_removed:
  assumes "kq_step\<^sup>*\<^sup>* (n, st) b" and "watches_inv n st" and "dirty_inv st"
    and "i \<notin> fst ` set (m_watches st)" and "issued n i"
  shows "fst b + 2 < 2 ^ 64 \<Longrightarrow> i \<notin> fst ` set (m_watches (snd b))
    \<and> filter (\<lambda>e. fst e = i) (kq_fired (snd b)) = filter (\<lambda>e. fst e = i) (kq_fired st)"
  using assms
proof (induction rule: rtranclp_induct)
  case (step b c)
  have "fst b \<le> fst c" using step.hyps(2) by (cases rule: kq_step.cases) auto
  then have bound: "fst b + 2 < 2 ^ 64" using step.prems(1) by simp
  with kq_steps_inv [OF step.hyps(1)] step.prems have b: "watches_inv (fst b) (snd b)" "dirty_inv (snd b)" "n \<le> fst b"
    by auto
  have "kq_step (fst b, snd b) (fst c, snd c)" using step.hyps(2) by simp
  from kq_step_removed [OF this step.prems(1) b(1,2)] step.IH [OF bound] step.prems issued_le [OF _ b(3)]
  show ?case by auto
qed simp

text \<open>
  C16. After a watch is closed and the thread has taken one turn, the watch is gone and its
  callback is never called again, neither in that turn nor later, even though changes of
  its file may already have been recorded.
\<close>

theorem closed_watch_never_fires:
  assumes "kq_reachable n st" and "i \<in> fst ` set (m_watches st)"
    and "mset (iter (kq_dirty st)) = mset (kq_dirty st)"
    and "kq_step\<^sup>*\<^sup>* (n, Run_turn iter ans now (CloseWatch i st)) (n', st')" and "n' + 2 < 2 ^ 64"
  shows "i \<notin> fst ` set (m_watches st')
    \<and> filter (\<lambda>e. fst e = i) (kq_fired st') = filter (\<lambda>e. fst e = i) (kq_fired st)"
proof -
  have mono: "fst a \<le> fst b" if "kq_step\<^sup>*\<^sup>* a b" for a b :: "nat \<times> 'a KqueueFileWatcher"
    using that by (induction rule: rtranclp_induct) (auto elim!: kq_step.cases split: if_splits)
  have bound: "n + 2 < 2 ^ 64" using mono [OF assms(4)] assms(5) by simp
  have inv: "watches_inv n st" "dirty_inv st" using kq_reachable_inv [OF assms(1) bound] by blast+
  let ?st1 = "CloseWatch i st" and ?st2 = "Run_turn iter ans now (CloseWatch i st)"
  have inv1: "watches_inv n ?st1" "dirty_inv ?st1" using inv by (simp_all add: CloseWatch_def dirty_inv_def)
  have gone: "i \<notin> fst ` set (m_watches ?st1) - set (m_pendingUnwatches ?st1)" by (simp add: CloseWatch_def)
  have inv2: "watches_inv n ?st2" "dirty_inv ?st2" "i \<notin> fst ` set (m_watches ?st2)"
    using Run_turn_inv [OF inv1, of iter ans now] gone by auto
  have "issued n i" using inv(1) assms(2) by (auto simp: watches_inv_def)
  from kq_steps_removed [OF assms(4) inv2 this] assms(5) Run_turn_fired [OF inv1 gone, of iter ans now]
  show ?thesis by (simp add: CloseWatch_def)
qed

theorem closed_watch_never_fires_witness:
  "m_watches (Run_turn (\<lambda>d. d) (KeventReady [(VnodeEvent 8 2 [NOTE_WRITE], (-1, False), 0)]) 99999999
      (CloseWatch 2 sample_watcher)) = []
   \<and> filter (\<lambda>e. fst e = 2) (kq_fired (Run_turn (\<lambda>d. d)
        (KeventReady [(VnodeEvent 8 2 [NOTE_WRITE], (-1, False), 0)]) 99999999 (CloseWatch 2 sample_watcher))) = []"
proof -
  let ?st = "Run_turn (\<lambda>d. d) (KeventReady [(VnodeEvent 8 2 [NOTE_WRITE], (-1, False), 0)]) 99999999
      (CloseWatch 2 sample_watcher)"
  have "2 \<in> fst ` set (m_watches sample_watcher)"
    using sample_watcher_open(2) by (metis list.set_intros(1) list.set_map)
  from closed_watch_never_fires [OF sample_watcher_reachable this _ rtranclp.rtrancl_refl, of "\<lambda>d. d"
      "KeventReady [(VnodeEvent 8 2 [NOTE_WRITE], (-1, False), 0)]" 99999999]
  have "filter (\<lambda>e. fst e = 2) (kq_fired ?st) = filter (\<lambda>e. fst e = 2) (kq_fired sample_watcher)" by simp
  moreover have "kq_fired sample_watcher = []" by code_simp
  moreover have "m_watches ?st = []" by code_simp
  ultimately show ?thesis by simp
qed

lemma map_fst_lookups:
  "map fst (List.map_filter (\<lambda>i. map_option (\<lambda>w. (i, f w, g w)) (map_of ws i)) xs)
     = filter (\<lambda>i. i \<in> fst ` set ws) xs"
proof (induction xs)
  case (Cons i xs)
  have "i \<in> fst ` set ws \<longleftrightarrow> map_of ws i \<noteq> None" by (simp add: map_of_eq_None_iff)
  with Cons show ?case by (cases "map_of ws i") (simp_all add: map_filter_simps)
qed (simp add: map_filter_simps)


definition sample_dirty :: "unit KqueueFileWatcher" where
  "sample_dirty = Run_turn (\<lambda>d. d) (KeventReady [(VnodeEvent 8 2 [NOTE_WRITE], (-1, False), 0),
     (VnodeEvent 8 2 [NOTE_EXTEND], (-1, False), 5)]) 10 sample_watcher"

lemma sample_dirty_reachable: "kq_reachable 1 sample_dirty"
proof -
  have "\<not> m_shutdown sample_watcher" by code_simp
  then have "kq_step (1, sample_watcher) (1, sample_dirty)"
    unfolding sample_dirty_def by (intro kq_step.turn) auto
  with sample_watcher_reachable show ?thesis
    unfolding kq_reachable_def by (meson rtranclp.rtrancl_into_rtrancl)
qed


text \<open>The timeout is the time left until the deadline, never negative, with its fraction below a
  second.\<close>

theorem kevent_timeout_exact:
  "case kevent_timeout now deadline of
     None \<Rightarrow> deadline = None
   | Some (tv_sec, tv_nsec) \<Rightarrow> 0 \<le> tv_sec \<and> 0 \<le> tv_nsec \<and> tv_nsec < 1000000000
       \<and> tv_sec * 1000000000 + tv_nsec = max 0 (the deadline - now)"
proof (cases deadline)
  case (Some d)
  let ?r = "max 0 (d - now)"
  have "kevent_timeout now deadline = Some (?r div 1000000000, ?r mod 1000000000)"
    using Some by (auto simp: kevent_timeout_def Let_def max_def minus_div_mult_eq_mod)
  then show ?thesis using Some by (simp add: pos_imp_zdiv_nonneg_iff)
qed (simp add: kevent_timeout_def)

end
