(* ===== verification/Birch_Main.thy ===== *)
theory Birch_Main
  imports Irc_Server Kqueue_Watcher
begin

text \<open>
  Start-up: the global file watcher (\<open>util/FileWatcher.cc\<close>, \<open>util/NoopFileWatcher.cc\<close>,
  \<open>util/InotifyFileWatcher.cc\<close>), the configuration file (\<open>config/FileConfigDataSource.cc\<close>)
  and \<open>main.cc\<close>, which puts the parts together.

  A watcher is the no-op watcher or the platform's; the virtual call \<open>WatchFile\<close> of the
  latter is the argument \<open>platform_watch\<close>. What the file system answers is an argument.
  Log messages are not modelled, and \<open>main\<close> is followed up to the
  point where \<open>ServeForever\<close> has started.
\<close>

section \<open>File watchers\<close>

datatype 'w watcher = NoopFileWatcher | PlatformWatcher 'w

datatype watch_token = NoopHandle | PlatformHandle

definition Noop_WatchFile :: "string \<Rightarrow> 'cb \<Rightarrow> watch_token status_or" where
  "Noop_WatchFile path cb = Inr NoopHandle"

type_synonym ('w, 'cb) platform_watch = "string \<Rightarrow> 'cb \<Rightarrow> 'w \<Rightarrow> watch_token status_or \<times> 'w"

definition watcher_WatchFile ::
  "('w, 'cb) platform_watch \<Rightarrow> string \<Rightarrow> 'cb \<Rightarrow> 'w watcher \<Rightarrow> watch_token status_or \<times> 'w watcher" where
  "watcher_WatchFile platform_watch path cb fw =
     (case fw of
        NoopFileWatcher \<Rightarrow> (Noop_WatchFile path cb, NoopFileWatcher)
      | PlatformWatcher w \<Rightarrow>
          (case platform_watch path cb w of (r, w) \<Rightarrow> (r, PlatformWatcher w)))"

text \<open>The inotify watcher is its descriptor; it cannot watch anything yet.\<close>

definition Inotify_Create :: "int \<Rightarrow> int \<Rightarrow> int status_or" where
  "Inotify_Create fd errno =
     (if fd = -1 then Inl (ErrnoToStatus errno ''inotify_init1() failed'') else Inr fd)"

definition Inotify_WatchFile :: "(int, 'cb) platform_watch" where
  "Inotify_WatchFile path cb w =
     (Inl (UnimplementedError ''WatchFile not implemented for InotifyFileWatcher''), w)"

definition Inotify_destroy :: "int \<Rightarrow> int list \<Rightarrow> int \<times> int list" where
  "Inotify_destroy m_inotify closed =
     (if m_inotify \<noteq> -1 then (-1, closed @ [m_inotify]) else (m_inotify, closed))"

record 'w watcher_globals =
  g_onceFlag :: bool
  g_fileWatcher :: "'w watcher option"
  g_status :: status

definition watcher_globals_init :: "'w watcher_globals" where
  "watcher_globals_init = \<lparr>g_onceFlag = False, g_fileWatcher = None, g_status = OkStatus\<rparr>"

definition InitializeGlobalFileWatcher ::
  "'w status_or \<Rightarrow> 'w watcher_globals \<Rightarrow> status \<times> 'w watcher_globals" where
  "InitializeGlobalFileWatcher create g =
     (let g = (if g_onceFlag g then g
               else case create of
                      Inr w \<Rightarrow> g\<lparr>g_onceFlag := True, g_fileWatcher := Some (PlatformWatcher w)\<rparr>
                    | Inl st \<Rightarrow> g\<lparr>g_onceFlag := True, g_status := st,
                                  g_fileWatcher := Some NoopFileWatcher\<rparr>)
      in (g_status g, g))"

definition InitializeGlobalFileWatcherForTesting ::
  "'w watcher_globals \<Rightarrow> status \<times> 'w watcher_globals" where
  "InitializeGlobalFileWatcherForTesting g =
     (let g = (if g_onceFlag g then g
               else g\<lparr>g_onceFlag := True, g_fileWatcher := Some NoopFileWatcher, g_status := OkStatus\<rparr>)
      in (g_status g, g))"

definition GetGlobalFileWatcher :: "'w watcher_globals \<Rightarrow> 'w watcher option" where
  "GetGlobalFileWatcher g = g_fileWatcher g"

section \<open>The configuration file\<close>

record 'cb FileConfigDataSource =
  src_path :: string
  m_watchHandle :: "watch_token option"
  m_callbacks :: "'cb list"

definition FileConfigDataSource_new :: "string \<Rightarrow> 'cb FileConfigDataSource" where
  "FileConfigDataSource_new path = \<lparr>src_path = path, m_watchHandle = None, m_callbacks = []\<rparr>"

text \<open>\<open>GetGlobalFileWatcher()\<close> is dereferenced without a test: a null watcher is \<open>None\<close>.\<close>

definition InitializeFileWatch ::
  "('w, 'f) platform_watch \<Rightarrow> 'f \<Rightarrow> 'cb FileConfigDataSource \<Rightarrow> 'w watcher_globals
     \<Rightarrow> (status \<times> 'cb FileConfigDataSource \<times> 'w watcher_globals) option" where
  "InitializeFileWatch platform_watch on_change src g =
     (case GetGlobalFileWatcher g of
        None \<Rightarrow> None
      | Some fw \<Rightarrow>
          (case watcher_WatchFile platform_watch (src_path src) on_change fw of
             (Inl st, fw) \<Rightarrow> Some (st, src, g\<lparr>g_fileWatcher := Some fw\<rparr>)
           | (Inr h, fw) \<Rightarrow>
               Some (OkStatus, src\<lparr>m_watchHandle := Some h\<rparr>, g\<lparr>g_fileWatcher := Some fw\<rparr>)))"

text \<open>\<open>regular\<close> is the answer of \<open>is_regular_file\<close> and its error code, zero for none.\<close>

definition CreateFromFile ::
  "('w, 'f) platform_watch \<Rightarrow> 'f \<Rightarrow> bool \<times> int \<Rightarrow> string \<Rightarrow> 'w watcher_globals
     \<Rightarrow> ('cb FileConfigDataSource status_or \<times> 'w watcher_globals) option" where
  "CreateFromFile platform_watch on_change regular path g =
     (if \<not> fst regular then
        (if snd regular \<noteq> 0
         then Some (Inl (ErrnoToStatus (snd regular) ''is_regular_file() failed''), g)
         else Some (Inl (InvalidArgumentError (''File '' @ path @ '' is not a regular file'')), g))
      else
        (case InitializeFileWatch platform_watch on_change (FileConfigDataSource_new path) g of
           None \<Rightarrow> None
         | Some (st, src, g) \<Rightarrow> Some (if st = OkStatus then Inr src else Inl st, g)))"

text \<open>\<open>file\<close> is the file's contents if it can be opened, else the text of the error.\<close>

definition source_Read :: "string + string \<Rightarrow> 'cb FileConfigDataSource \<Rightarrow> string status_or" where
  "source_Read file src =
     (case file of
        Inl strerror \<Rightarrow> Inl (NotFoundError (''Failed to open file '' @ src_path src @ '': '' @ strerror))
      | Inr contents \<Rightarrow> Inr contents)"

definition source_Subscribe :: "'cb \<Rightarrow> 'cb FileConfigDataSource \<Rightarrow> 'cb FileConfigDataSource" where
  "source_Subscribe cb src = src\<lparr>m_callbacks := m_callbacks src @ [cb]\<rparr>"

definition NotifyWatchers :: "('cb \<Rightarrow> 'w \<Rightarrow> 'w) \<Rightarrow> 'cb FileConfigDataSource \<Rightarrow> 'w \<Rightarrow> 'w" where
  "NotifyWatchers call src w = fold call (m_callbacks src) w"

definition OnFileChanged :: "('cb \<Rightarrow> 'w \<Rightarrow> 'w) \<Rightarrow> 'cb FileConfigDataSource \<Rightarrow> 'w \<Rightarrow> 'w" where
  "OnFileChanged call src w = NotifyWatchers call src w"

section \<open>The program\<close>

datatype 'q main_outcome = Returned int | Serving "'q Server" | Crashed

record ('w, 'f, 'd) environment =
  env_create :: "'w status_or"
  env_watch :: "('w, 'f) platform_watch"
  env_on_change :: 'f
  env_regular :: "bool \<times> int"
  env_file :: "string + string"
  env_strings :: strings_api
  env_parse :: "string \<Rightarrow> (string \<times> 'd toml_node) list option"
  env_listen :: "16 word \<Rightarrow> bool"

text \<open>\<open>TomlConfig::Create\<close> and \<open>IServer::Create\<close> never return null, so the tests of their
  results do not appear. An exception of \<open>ServeForever\<close> is caught, and \<open>main\<close> returns 0.\<close>

definition birch_main :: "('w, 'f, 'd) environment \<Rightarrow> string \<Rightarrow> 'q main_outcome" where
  "birch_main e configFilePath =
     (case InitializeGlobalFileWatcher (env_create e) watcher_globals_init of
        (st, g) \<Rightarrow>
          if st \<noteq> OkStatus then Returned 1
          else
            (case CreateFromFile (env_watch e) (env_on_change e) (env_regular e) configFilePath g of
               None \<Rightarrow> Crashed
             | Some (Inl err, g) \<Rightarrow> Returned 1
             | Some (Inr (source :: unit FileConfigDataSource), g) \<Rightarrow>
                 (let config = TomlConfig_Create (env_parse e) (source_Read (env_file e) source) in
                    case IServerConfig_Create (env_strings e) toml_config_api (Some config) of
                      (Inl err, _) \<Rightarrow> Returned 1
                    | (Inr serverConfig, _) \<Rightarrow>
                        (case ServeForever (env_listen e) (Server_new serverConfig) of
                           Inl fault \<Rightarrow> Returned 0
                         | Inr server \<Rightarrow> Serving server))))"

text \<open>
  The flag \<open>--configFile\<close>: \<open>flag\<close> is the text \<open>absl::ParseCommandLine\<close> found for it, if any.
  A path is its text.
\<close>

definition AbslParseFlag :: "string \<Rightarrow> bool \<times> string" where
  "AbslParseFlag txt = (True, txt)"

definition AbslUnparseFlag :: "string \<Rightarrow> string" where
  "AbslUnparseFlag p = p"

definition FLAGS_configFile :: "string option \<Rightarrow> string" where
  "FLAGS_configFile flag = (case flag of None \<Rightarrow> ''./config.toml'' | Some txt \<Rightarrow> snd (AbslParseFlag txt))"

section \<open>Properties\<close>

lemma watcher_ready:
  "InitializeGlobalFileWatcher create watcher_globals_init = (OkStatus, g) \<Longrightarrow>
     \<exists>fw. GetGlobalFileWatcher g = Some fw"
  by (auto simp: InitializeGlobalFileWatcher_def watcher_globals_init_def GetGlobalFileWatcher_def Let_def
      split: sum.splits)

text \<open>The file source \<open>main\<close> uses has no subscriber.\<close>

lemma CreateFromFile_source:
  "CreateFromFile pw oc regular path g = Some (Inr source, g') \<Longrightarrow>
     src_path source = path \<and> m_callbacks source = []"
  by (auto simp: CreateFromFile_def InitializeFileWatch_def FileConfigDataSource_new_def
      split: if_splits option.splits prod.splits sum.splits)

text \<open>
  The watcher is chosen once: after any first initialization, for the program or for
  tests, a watcher is present, and every later initialization of either kind returns the
  same status and changes nothing.
\<close>

theorem watcher_initialized_once:
  "let (st, g) = InitializeGlobalFileWatcher create watcher_globals_init;
       (st', g') = InitializeGlobalFileWatcherForTesting watcher_globals_init
   in GetGlobalFileWatcher g \<noteq> None \<and> GetGlobalFileWatcher g' = Some NoopFileWatcher
      \<and> InitializeGlobalFileWatcher create' g = (st, g) \<and> InitializeGlobalFileWatcherForTesting g = (st, g)
      \<and> InitializeGlobalFileWatcher create' g' = (st', g') \<and> st' = OkStatus
      \<and> (st = OkStatus \<or> GetGlobalFileWatcher g = Some NoopFileWatcher)"
  by (simp add: InitializeGlobalFileWatcher_def InitializeGlobalFileWatcherForTesting_def
      watcher_globals_init_def GetGlobalFileWatcher_def Let_def split: sum.split)

text \<open>
  With the inotify watcher the program never serves: whatever the configuration file
  holds, it returns 1 before reading it, because the file source insists on a watch and
  \<open>WatchFile\<close> is not implemented there.
\<close>

theorem inotify_never_serves:
  assumes "env_watch e = Inotify_WatchFile" and "env_create e = Inotify_Create fd errno"
    and "errno \<noteq> 0"
  shows "birch_main e path = Returned 1"
  using assms
  by (auto simp: birch_main_def InitializeGlobalFileWatcher_def watcher_globals_init_def Inotify_Create_def
      CreateFromFile_def InitializeFileWatch_def GetGlobalFileWatcher_def watcher_WatchFile_def
      Inotify_WatchFile_def Let_def)

theorem inotify_never_serves_witness:
  "birch_main \<lparr>env_create = Inotify_Create 7 24, env_watch = Inotify_WatchFile, env_on_change = (),
      env_regular = (True, 0), env_file = Inr ''x'', env_strings = ref_strings,
      env_parse = sample_parse, env_listen = (\<lambda>_. True)\<rparr> ''birch.toml'' = Returned 1"
  by (rule inotify_never_serves [where fd = 7 and errno = 24]) simp_all

text \<open>
  C12. When the program serves, it serves what its configuration file says: the file was
  readable and valid TOML with a \<open>server\<close> table, the acceptor listens, on the port that is
  the document's \<open>port\<close> modulo \<open>2\<^sup>1\<^sup>6\<close>, and the number of worker threads is the
  document's \<open>num_workers\<close> modulo \<open>2\<^sup>3\<^sup>2\<close>.
\<close>

theorem serving_matches_config:
  assumes "strings_ok (env_strings e)" and "\<And>str tbl. env_parse e str = Some tbl \<Longrightarrow> toml_wf (toml_table tbl)"
    and "birch_main e path = Serving server"
  shows "\<exists>contents tbl srv. env_file e = Inr contents \<and> env_parse e contents = Some tbl
    \<and> map_of tbl ''server'' = Some (toml_table srv)
    \<and> uint (GetPort (srv_config server)) = doc_int srv ''port'' mod 2 ^ 16
    \<and> int (m_workers server) = doc_int srv ''num_workers'' mod 2 ^ 32
    \<and> m_acceptor_open server \<and> env_listen e (GetPort (srv_config server))"
proof -
  from assms(3) obtain source :: "unit FileConfigDataSource" and self config where
    created: "IServerConfig_Create (env_strings e) toml_config_api
        (Some (TomlConfig_Create (env_parse e) (source_Read (env_file e) source))) = (Inr self, config)"
    and serve: "ServeForever (env_listen e) (Server_new self) = Inr server"
    by (auto simp: birch_main_def Let_def split: prod.splits if_splits option.splits sum.splits)
  note self = arg_cong [where f = fst, OF created, unfolded fst_conv]
  obtain contents tbl where contents: "source_Read (env_file e) source = Inr contents"
    and tbl: "env_parse e contents = Some tbl"
    using Create_reads_document [OF self] by metis
  have read: "env_file e = Inr contents"
    using contents by (simp add: source_Read_def split: sum.splits)
  obtain srv where srv: "map_of tbl ''server'' = Some (toml_table srv)"
    and workers: "uint (GetNumWorkers self) = doc_int srv ''num_workers'' mod 2 ^ 32"
    and port: "uint (GetPort self) = doc_int srv ''port'' mod 2 ^ 16"
    using Create_on_table [OF assms(1) tbl assms(2) [OF tbl] self [unfolded contents]] by metis
  have server: "srv_config server = self" "m_acceptor_open server" "env_listen e (GetPort self)"
    "m_workers server = unat (GetNumWorkers self)"
    using serve by (auto simp: ServeForever_def Server_new_def Let_def split: if_splits)
  have "int (m_workers server) = uint (GetNumWorkers self)"
    by (simp add: server(4))
  with read tbl srv workers port server show ?thesis by auto
qed

text \<open>A start that succeeds, with a watcher that accepts every request.\<close>

definition sample_environment :: "(unit, unit, unit) environment" where
  "sample_environment =
     \<lparr>env_create = Inr (), env_watch = (\<lambda>path cb w. (Inr PlatformHandle, w)), env_on_change = (),
      env_regular = (True, 0), env_file = Inr ''x'', env_strings = ref_strings,
      env_parse = sample_parse, env_listen = (\<lambda>port. True)\<rparr>"

lemma sample_environment_ok:
  "strings_ok (env_strings sample_environment)"
  "env_parse sample_environment doc = Some tbl \<Longrightarrow> toml_wf (toml_table tbl)"
  by (auto simp: sample_environment_def ref_strings_ok sample_parse_def sample_table_def split: if_splits)

theorem serving_matches_config_witness:
  "\<exists>server :: unit Server. birch_main sample_environment ''birch.toml'' = Serving server
     \<and> uint (GetPort (srv_config server)) = 6667 \<and> m_workers server = 4"
proof -
  have doc: "sample_parse ''x'' = Some sample_table" "toml_wf (toml_table sample_table)"
    by (simp_all add: sample_parse_def sample_table_def)
  obtain self where "fst (IServerConfig_Create ref_strings toml_config_api
      (Some (TomlConfig_Create sample_parse (Inr ''x'')))) = Inr self"
    using Create_on_document [where toml_parse = sample_parse, OF ref_strings_ok doc refl] by (simp add: sample_table_def Parse_VMap)
  then obtain config where "IServerConfig_Create ref_strings toml_config_api
      (Some (TomlConfig_Create sample_parse (Inr ''x''))) = (Inr self, config)"
    by (metis prod.collapse)
  then obtain server :: "unit Server" where
    serving: "birch_main sample_environment ''birch.toml'' = Serving server"
    by (simp add: birch_main_def sample_environment_def InitializeGlobalFileWatcher_def
        watcher_globals_init_def CreateFromFile_def InitializeFileWatch_def GetGlobalFileWatcher_def
        watcher_WatchFile_def source_Read_def ServeForever_def Server_new_def Let_def)
  from serving_matches_config [OF sample_environment_ok serving] serving show ?thesis
    by (auto simp: sample_environment_def sample_parse_def sample_table_def doc_int_def)
qed

end
