(* ===== verification/Irc_State.thy ===== *)
theory Irc_State
  imports Asio_Connection "HOL-Library.Multiset"
begin

text \<open>
  The IRC-level state: \<open>irc/CapabilitySet.cc\<close>, \<open>irc/Channel.cc\<close>, \<open>irc/IrcState.cc\<close>,
  \<open>irc/Session.cc\<close>, \<open>irc/Capabilities.cc\<close>, the channel name check of
  \<open>server/Channel.cc\<close> and the adapter \<open>server/SessionConnectionObserver.cc\<close>.

  The methods of \<open>irc::User\<close> and the function \<open>Session::Close\<close> are declared but not
  defined in the repository; where other code calls them (\<open>GetId\<close>, \<open>Close\<close>) they are
  arguments. The protobuf descriptor of the capability enumeration is generated code and an
  argument too. A hash map is its list of entries; the order in which it is traversed is an
  argument (\<open>iter\<close>) where the code shows it. A failed \<open>CHECK\<close> is a fault.
\<close>

datatype irc_fault = NullUser | MissingSpec string | IndexPastArray

section \<open>Capabilities\<close>

record Capability =
  cap_name :: string
  cap_values :: "(string \<times> string) list"

definition Capability_new :: "string \<Rightarrow> Capability" where
  "Capability_new name = \<lparr>cap_name = name, cap_values = []\<rparr>"

definition SetValue :: "string \<Rightarrow> string \<Rightarrow> Capability \<Rightarrow> Capability" where
  "SetValue name val cap = cap\<lparr>cap_values := lhm_emplace name val (cap_values cap)\<rparr>"

definition EmplaceValue :: "string \<Rightarrow> string \<Rightarrow> Capability \<Rightarrow> Capability" where
  "EmplaceValue name val cap = cap\<lparr>cap_values := lhm_emplace name val (cap_values cap)\<rparr>"

definition Capability_GetValue :: "string \<Rightarrow> Capability \<Rightarrow> string option" where
  "Capability_GetValue name cap = map_of (cap_values cap) name"

text \<open>
  A set owns its capabilities; the pointer \<open>Add\<close> and \<open>Find\<close> return refers to the entry of
  that name, so it is the name, and \<open>cap_update\<close> is a call through it.
\<close>

record CapabilitySet =
  m_caps :: "(string \<times> Capability) list"

definition CapabilitySet_empty :: CapabilitySet where
  "CapabilitySet_empty = \<lparr>m_caps = []\<rparr>"

definition CapabilitySet_GetSize :: "CapabilitySet \<Rightarrow> nat" where
  "CapabilitySet_GetSize s = length (m_caps s)"

definition HasCapability :: "string \<Rightarrow> CapabilitySet \<Rightarrow> bool" where
  "HasCapability name s = (map_of (m_caps s) name \<noteq> None)"

definition Find :: "string \<Rightarrow> CapabilitySet \<Rightarrow> string option" where
  "Find name s = (case map_of (m_caps s) name of None \<Rightarrow> None | Some cap \<Rightarrow> Some name)"

definition Add :: "string \<Rightarrow> CapabilitySet \<Rightarrow> string \<times> CapabilitySet" where
  "Add name s =
     (case Find name s of
        None \<Rightarrow> (name, s\<lparr>m_caps := lhm_emplace name (Capability_new name) (m_caps s)\<rparr>)
      | Some result \<Rightarrow> (result, s))"

definition Revoke :: "string \<Rightarrow> CapabilitySet \<Rightarrow> CapabilitySet" where
  "Revoke name s = s\<lparr>m_caps := AList.delete name (m_caps s)\<rparr>"

definition cap_update :: "string \<Rightarrow> (Capability \<Rightarrow> Capability) \<Rightarrow> CapabilitySet \<Rightarrow> CapabilitySet" where
  "cap_update ptr f s = s\<lparr>m_caps := map (\<lambda>(n, c). (n, if n = ptr then f c else c)) (m_caps s)\<rparr>"

text \<open>
  \<open>GetCaps\<close>: the specifications of the enumerators, copied by index into an array of fixed
  size; \<open>desc\<close> lists the enumerators' names with their option, if they have it.
\<close>

fun GetCaps_loop ::
  "nat \<Rightarrow> (string \<times> 'spec option) list \<Rightarrow> 'spec list \<Rightarrow> irc_fault + 'spec list" where
  "GetCaps_loop ix [] result = Inr result"
| "GetCaps_loop ix ((full_name, spec) # desc) result =
     (case spec of
        None \<Rightarrow> Inl (MissingSpec full_name)
      | Some sp \<Rightarrow>
          if ix < length result then GetCaps_loop (ix + 1) desc (result[ix := sp])
          else Inl IndexPastArray)"

definition GetCaps :: "'spec \<Rightarrow> nat \<Rightarrow> (string \<times> 'spec option) list \<Rightarrow> irc_fault + 'spec list" where
  "GetCaps default_spec array_size desc = GetCaps_loop 0 desc (replicate array_size default_spec)"

section \<open>Channels\<close>

type_synonym UserId = "64 word"

record 'u Channel =
  ch_name :: string
  m_members :: "(UserId \<times> 'u) list"

definition Channel_new :: "string \<Rightarrow> 'u Channel" where
  "Channel_new name = \<lparr>ch_name = name, m_members = []\<rparr>"

definition Channel_Create :: "string \<Rightarrow> 'u Channel status_or" where
  "Channel_Create name = Inr (Channel_new name)"

text \<open>The vector is built with as many null pointers as there are members before the members
  are appended.\<close>

definition ListMembers ::
  "((UserId \<times> 'u) list \<Rightarrow> (UserId \<times> 'u) list) \<Rightarrow> 'u Channel \<Rightarrow> 'u option list" where
  "ListMembers iter ch =
     foldl (\<lambda>result (_, user). result @ [Some user])
       (replicate (length (m_members ch)) None) (iter (m_members ch))"

definition Join :: "'u option \<Rightarrow> 'u Channel \<Rightarrow> irc_fault + status" where
  "Join user ch =
     (case user of None \<Rightarrow> Inl NullUser | Some u \<Rightarrow> Inr (UnimplementedError ''not yet implemented''))"

definition Depart :: "'u option \<Rightarrow> 'u Channel \<Rightarrow> irc_fault + status" where
  "Depart user ch =
     (case user of None \<Rightarrow> Inl NullUser | Some u \<Rightarrow> Inr (UnimplementedError ''not yet implemented''))"

definition AdministrativelyAddUser ::
  "('u \<Rightarrow> UserId) \<Rightarrow> 'u option \<Rightarrow> 'u Channel \<Rightarrow> irc_fault + 'u Channel" where
  "AdministrativelyAddUser GetId user ch =
     (case user of
        None \<Rightarrow> Inl NullUser
      | Some u \<Rightarrow> Inr (ch\<lparr>m_members := lhm_emplace (GetId u) u (m_members ch)\<rparr>))"

definition AdministrativelyRemoveUser ::
  "('u \<Rightarrow> UserId) \<Rightarrow> 'u option \<Rightarrow> 'u Channel \<Rightarrow> irc_fault + 'u Channel" where
  "AdministrativelyRemoveUser GetId user ch =
     (case user of
        None \<Rightarrow> Inl NullUser
      | Some u \<Rightarrow> Inr (ch\<lparr>m_members := AList.delete (GetId u) (m_members ch)\<rparr>))"

text \<open>Channels are shared, so the state maps a name to the address of its channel.\<close>

record 'u IrcState =
  m_channelsByName :: "(string \<times> nat) list"
  channel_heap :: "'u Channel list"

definition IrcState_new :: "'u IrcState" where
  "IrcState_new = \<lparr>m_channelsByName = [], channel_heap = []\<rparr>"

definition CreateChannel :: "string \<Rightarrow> 'u IrcState \<Rightarrow> nat status_or \<times> 'u IrcState" where
  "CreateChannel name st =
     (case map_of (m_channelsByName st) name of
        Some a \<Rightarrow> (Inl (AlreadyExistsError (''Channel '' @ name @ '' already exists'')), st)
      | None \<Rightarrow>
          (case Channel_Create name of
             Inl err \<Rightarrow> (Inl err, st)
           | Inr ch \<Rightarrow>
               (let a = length (channel_heap st)
                in (Inr a, st\<lparr>m_channelsByName := lhm_emplace name a (m_channelsByName st),
                              channel_heap := channel_heap st @ [ch]\<rparr>))))"

text \<open>The check of \<open>server/Channel.cc\<close>.\<close>

definition IsValidChannelName :: "string \<Rightarrow> bool" where
  "IsValidChannelName name =
     (if length name \<le> 1 then False
      else if name ! 0 \<noteq> CHR ''&'' \<and> name ! 0 \<noteq> CHR ''#'' \<and> name ! 0 \<noteq> CHR ''+'' \<and> name ! 0 \<noteq> CHR ''!''
      then False
      else if length name > 50 then False
      else if \<exists>c \<in> set name. c \<in> set [CHR '','', CHR '':'', SP, CHR 0x07] then False
      else True)"

section \<open>Sessions\<close>

datatype Phase = Registering | Active

record 'o Session =
  ses_id :: "64 word"
  m_phase :: Phase
  ses_caps :: CapabilitySet
  ses_observable :: "'o Observable"

definition Session_new :: "64 word \<Rightarrow> 'o Session" where
  "Session_new i = \<lparr>ses_id = i, m_phase = Registering, ses_caps = CapabilitySet_empty,
     ses_observable = Observable_init\<rparr>"

definition Session_GetId :: "'o Session \<Rightarrow> 64 word" where
  "Session_GetId s = ses_id s"

definition AcceptMessage :: "Message \<Rightarrow> 'o Session \<Rightarrow> 'o Session" where
  "AcceptMessage msg s = s"

definition AddSessionObserver :: "('o \<Rightarrow> bool) \<Rightarrow> 'o \<Rightarrow> 'o Session \<Rightarrow> 'o Session" where
  "AddSessionObserver alive observer s =
     s\<lparr>ses_observable := AddObserver alive observer (ses_observable s)\<rparr>"

definition RemoveSessionObserver :: "('o \<Rightarrow> bool) \<Rightarrow> 'o \<Rightarrow> 'o Session \<Rightarrow> 'o Session" where
  "RemoveSessionObserver alive observer s =
     s\<lparr>ses_observable := RemoveObserver alive observer (ses_observable s)\<rparr>"

text \<open>
  The adapter between a connection and a session holds a pointer to each, null after the
  end; \<open>sco_session\<close> and \<open>sco_connection\<close> tell whether they are set. The objects pointed
  to are in the second record.
\<close>

record SessionConnectionObserver =
  sco_session :: bool
  sco_connection :: bool

record ('o, 'c, 'q) sco_world =
  w_session :: "'o Session"
  w_connection :: "('c, 'q) AsioConnection"

definition SessionConnectionObserver_new :: SessionConnectionObserver where
  "SessionConnectionObserver_new = \<lparr>sco_session = True, sco_connection = True\<rparr>"

type_synonym ('o, 'c, 'q) sco_state = "SessionConnectionObserver \<times> ('o, 'c, 'q) sco_world"

definition sco_OnMessage ::
  "ConnId \<Rightarrow> Message \<Rightarrow> ('o, 'c, 'q) sco_state \<Rightarrow> ('o, 'c, 'q) sco_state" where
  "sco_OnMessage connId msg sw =
     (case sw of (sco, w) \<Rightarrow>
        if sco_session sco then (sco, w\<lparr>w_session := AcceptMessage msg (w_session w)\<rparr>) else (sco, w))"

definition sco_OnError ::
  "(status \<Rightarrow> 'o Session \<Rightarrow> 'o Session) \<Rightarrow> ConnId \<Rightarrow> status
     \<Rightarrow> ('o, 'c, 'q) sco_state \<Rightarrow> ('o, 'c, 'q) sco_state" where
  "sco_OnError Session_Close connId st sw =
     (case sw of (sco, w) \<Rightarrow>
        (let w = (if sco_session sco then w\<lparr>w_session := Session_Close st (w_session w)\<rparr> else w)
         in (sco\<lparr>sco_session := False, sco_connection := False\<rparr>, w)))"

definition sco_OnDisconnect ::
  "(status \<Rightarrow> 'o Session \<Rightarrow> 'o Session) \<Rightarrow> ConnId
     \<Rightarrow> ('o, 'c, 'q) sco_state \<Rightarrow> ('o, 'c, 'q) sco_state" where
  "sco_OnDisconnect Session_Close connId sw =
     (case sw of (sco, w) \<Rightarrow>
        (let w = (if sco_session sco then w\<lparr>w_session := Session_Close OkStatus (w_session w)\<rparr> else w)
         in (sco\<lparr>sco_session := False, sco_connection := False\<rparr>, w)))"

definition OnMessageEmitted ::
  "'q channel_api \<Rightarrow> Message \<Rightarrow> ('o, 'c, 'q) sco_state \<Rightarrow> ('o, 'c, 'q) sco_state" where
  "OnMessageEmitted api msg sw =
     (case sw of (sco, w) \<Rightarrow>
        if sco_connection sco
        then (sco, w\<lparr>w_connection := snd (DeliverResponse api msg (w_connection w))\<rparr>)
        else (sco, w))"

text \<open>What the adapter can be told, by its connection or by its session.\<close>

datatype sco_event = FromConnection conn_event | Emitted Message

definition sco_handle ::
  "(status \<Rightarrow> 'o Session \<Rightarrow> 'o Session) \<Rightarrow> 'q channel_api \<Rightarrow> sco_event
     \<Rightarrow> ('o, 'c, 'q) sco_state \<Rightarrow> ('o, 'c, 'q) sco_state" where
  "sco_handle Session_Close api ev sw =
     (case ev of
        FromConnection (OnMessage i msg) \<Rightarrow> sco_OnMessage i msg sw
      | FromConnection (OnError i st) \<Rightarrow> sco_OnError Session_Close i st sw
      | FromConnection (OnDisconnect i) \<Rightarrow> sco_OnDisconnect Session_Close i sw
      | Emitted msg \<Rightarrow> OnMessageEmitted api msg sw)"

section \<open>Capability sets as sets of names\<close>

text \<open>
  What holders of a set rely on: adding and revoking are insertion and removal in the set of
  names, values set through a pointer do not change it, and the size counts it.
\<close>

locale name_set =
  fixes names :: "'s \<Rightarrow> string set"
    and add :: "string \<Rightarrow> 's \<Rightarrow> 's"
    and revoke :: "string \<Rightarrow> 's \<Rightarrow> 's"
    and set_value :: "string \<Rightarrow> string \<Rightarrow> string \<Rightarrow> 's \<Rightarrow> 's"
    and size_of :: "'s \<Rightarrow> nat"
    and invar :: "'s \<Rightarrow> bool"
  assumes names_add: "invar s \<Longrightarrow> names (add n s) = insert n (names s)"
    and names_revoke: "invar s \<Longrightarrow> names (revoke n s) = names s - {n}"
    and names_set_value: "invar s \<Longrightarrow> names (set_value n k v s) = names s"
    and size_names: "invar s \<Longrightarrow> size_of s = card (names s)"
    and invar_add: "invar s \<Longrightarrow> invar (add n s)"
    and invar_revoke: "invar s \<Longrightarrow> invar (revoke n s)"
    and invar_set_value: "invar s \<Longrightarrow> invar (set_value n k v s)"
begin

lemma invar_adds: "invar s \<Longrightarrow> invar (fold add ns s)"
  by (induction ns arbitrary: s) (simp_all add: invar_add)

lemma names_adds: "invar s \<Longrightarrow> names (fold add ns s) = set ns \<union> names s"
  by (induction ns arbitrary: s) (auto simp: invar_add names_add)

text \<open>Negotiating a list of capabilities and revoking another.\<close>

lemma names_negotiate:
  "invar s \<Longrightarrow> names (fold revoke rs (fold add ns s)) = set ns \<union> names s - set rs
     \<and> size_of (fold revoke rs (fold add ns s)) = card (set ns \<union> names s - set rs)"
proof -
  assume "invar s"
  then have "invar (fold add ns s)" by (rule invar_adds)
  then have "invar (fold revoke rs (fold add ns s))
      \<and> names (fold revoke rs (fold add ns s)) = names (fold add ns s) - set rs"
    by (induction rs arbitrary: ns s rule: rev_induct) (auto simp: invar_revoke names_revoke)
  with names_adds [OF \<open>invar s\<close>] size_names show ?thesis by simp
qed

end

definition cap_names :: "CapabilitySet \<Rightarrow> string set" where
  "cap_names s = fst ` set (m_caps s)"

definition caps_ok :: "CapabilitySet \<Rightarrow> bool" where
  "caps_ok s \<longleftrightarrow> distinct (map fst (m_caps s)) \<and> (\<forall>(n, c) \<in> set (m_caps s). cap_name c = n)"

lemma HasCapability_names: "HasCapability n s \<longleftrightarrow> n \<in> cap_names s"
  by (auto simp: HasCapability_def cap_names_def map_of_eq_None_iff)

lemma Add_eq:
  "snd (Add n s) = (if n \<in> cap_names s then s else s\<lparr>m_caps := m_caps s @ [(n, Capability_new n)]\<rparr>)"
  by (auto simp: Add_def Find_def cap_names_def lhm_emplace_def map_of_eq_None_iff split: option.splits
      dest: map_of_SomeD intro: rev_image_eqI)

lemma cap_update_keys: "map fst (m_caps (cap_update n f s)) = map fst (m_caps s)"
  by (simp add: cap_update_def comp_def case_prod_unfold)

interpretation caps: name_set cap_names "\<lambda>n s. snd (Add n s)" Revoke
  "\<lambda>ptr name val. cap_update ptr (SetValue name val)" CapabilitySet_GetSize caps_ok
proof unfold_locales
  fix s n k v
  assume ok: "caps_ok s"
  show "cap_names (snd (Add n s)) = insert n (cap_names s)"
    unfolding Add_eq by (auto simp: cap_names_def)
  show "cap_names (Revoke n s) = cap_names s - {n}"
    by (auto simp: cap_names_def Revoke_def AList.delete_eq)
  show "cap_names (cap_update n (SetValue k v) s) = cap_names s"
    unfolding cap_names_def by (metis cap_update_keys list.set_map)
  show "CapabilitySet_GetSize s = card (cap_names s)"
    using ok distinct_card [of "map fst (m_caps s)"]
    by (simp add: caps_ok_def cap_names_def CapabilitySet_GetSize_def)
  show "caps_ok (snd (Add n s))"
    using ok unfolding Add_eq by (auto simp: caps_ok_def cap_names_def Capability_new_def)
  show "caps_ok (Revoke n s)"
    using ok AList.distinct_delete [of "m_caps s" n]
    by (auto simp: caps_ok_def Revoke_def AList.delete_eq)
  show "caps_ok (cap_update n (SetValue k v) s)"
    using ok unfolding caps_ok_def cap_update_keys by (auto simp: cap_update_def SetValue_def)
qed

text \<open>
  C33. Adding a list of capabilities to an empty set and revoking others leaves exactly the
  added and not revoked names, and the size counts them, repetitions not counted.
\<close>

theorem capability_negotiation:
  "let s = fold Revoke rs (fold (\<lambda>n s. snd (Add n s)) ns CapabilitySet_empty)
   in (\<forall>n. HasCapability n s = (n \<in> set ns - set rs))
      \<and> CapabilitySet_GetSize s = card (set ns - set rs)"
proof -
  have "caps_ok CapabilitySet_empty" "cap_names CapabilitySet_empty = {}"
    by (simp_all add: caps_ok_def cap_names_def CapabilitySet_empty_def)
  with caps.names_negotiate [of CapabilitySet_empty rs ns] show ?thesis
    by (simp add: Let_def HasCapability_names)
qed

text \<open>
  A capability's value can be set once: later calls of \<open>SetValue\<close> for the same name
  change nothing, so a name keeps the value given first.
\<close>

theorem capability_first_value_wins:
  "Capability_GetValue name (fold (\<lambda>(n, v). SetValue n v) settings (Capability_new cap))
     = map_of settings name"
proof -
  have "Capability_GetValue name (fold (\<lambda>(n, v). SetValue n v) settings c)
      = (case Capability_GetValue name c of None \<Rightarrow> map_of settings name | Some v \<Rightarrow> Some v)" for c
    by (induction settings arbitrary: c)
      (auto simp: Capability_GetValue_def SetValue_def map_of_lhm_emplace split: option.splits)
  then show ?thesis by (simp add: Capability_GetValue_def Capability_new_def)
qed

section \<open>Channels\<close>

text \<open>
  Listing the members of a channel gives, besides every member once, as many null
  pointers at the front as there are members.
\<close>

theorem list_members_has_nulls:
  assumes "mset (iter (m_members ch)) = mset (m_members ch)"
  shows "length (ListMembers iter ch) = 2 * length (m_members ch)
    \<and> take (length (m_members ch)) (ListMembers iter ch) = replicate (length (m_members ch)) None
    \<and> mset (drop (length (m_members ch)) (ListMembers iter ch))
        = image_mset (Some \<circ> snd) (mset (m_members ch))"
proof -
  have "foldl (\<lambda>result (_, user). result @ [Some user]) acc xs = acc @ map (Some \<circ> snd) xs"
    for acc :: "'a option list" and xs :: "(UserId \<times> 'a) list"
    by (induction xs arbitrary: acc) auto
  then have eq: "ListMembers iter ch
      = replicate (length (m_members ch)) None @ map (Some \<circ> snd) (iter (m_members ch))"
    by (simp add: ListMembers_def)
  have "length (iter (m_members ch)) = length (m_members ch)"
    using assms by (rule mset_eq_length)
  then show ?thesis using assms by (simp add: eq)
qed

theorem list_members_has_nulls_witness:
  "ListMembers rev \<lparr>ch_name = ''#c'', m_members = [(1, ''al''), (2, ''bo'')]\<rparr>
     = [None, None, Some ''bo'', Some ''al'']
   \<and> length (ListMembers rev \<lparr>ch_name = ''#c'', m_members = [(1, ''al''), (2, ''bo'')]\<rparr>) = 2 * 2"
  using list_members_has_nulls [of rev "\<lparr>ch_name = ''#c'', m_members = [(1, ''al''), (2, ''bo'')]\<rparr>"]
  by (simp add: ListMembers_def)

text \<open>Creating a sequence of channels.\<close>

fun create_channels :: "string list \<Rightarrow> 'u IrcState \<Rightarrow> nat status_or list \<times> 'u IrcState" where
  "create_channels [] st = ([], st)"
| "create_channels (n # ns) st =
     (case CreateChannel n st of
        (r, st') \<Rightarrow> (case create_channels ns st' of (rs, st'') \<Rightarrow> (r # rs, st'')))"

text \<open>Every channel is registered under its own name, and every name once.\<close>

definition registry_ok :: "'u IrcState \<Rightarrow> bool" where
  "registry_ok st \<longleftrightarrow> m_channelsByName st = zip (map ch_name (channel_heap st)) [0..<length (channel_heap st)]
     \<and> distinct (map ch_name (channel_heap st))"

lemma registry_lookup:
  assumes "registry_ok st"
  shows "map_of (m_channelsByName st) n = None \<longleftrightarrow> n \<notin> set (map ch_name (channel_heap st))"
proof -
  have "map fst (m_channelsByName st) = map ch_name (channel_heap st)"
    using assms by (simp add: registry_ok_def)
  then show ?thesis by (metis map_of_eq_None_iff list.set_map)
qed

lemma CreateChannel_eq:
  assumes "registry_ok st"
  shows "CreateChannel n st =
    (if n \<in> set (map ch_name (channel_heap st))
     then (Inl (AlreadyExistsError (''Channel '' @ n @ '' already exists'')), st)
     else (Inr (length (channel_heap st)),
           st\<lparr>m_channelsByName := m_channelsByName st @ [(n, length (channel_heap st))],
              channel_heap := channel_heap st @ [Channel_new n]\<rparr>))"
  using registry_lookup [OF assms, of n]
  by (auto simp: CreateChannel_def Channel_Create_def lhm_emplace_def Let_def split: option.split)

lemma CreateChannel_ok: "registry_ok st \<Longrightarrow> registry_ok (snd (CreateChannel n st))"
  by (simp add: CreateChannel_eq) (auto simp: registry_ok_def Channel_new_def)

lemma create_channels_spec:
  "registry_ok st \<Longrightarrow> create_channels ns st = (rs, st') \<Longrightarrow>
     registry_ok st'
     \<and> map ch_name (channel_heap st')
         = fold (\<lambda>n seen. if n \<in> set seen then seen else seen @ [n]) ns (map ch_name (channel_heap st))"
proof (induction ns arbitrary: st rs)
  case (Cons n ns)
  obtain r st1 where c: "CreateChannel n st = (r, st1)" by (metis surj_pair)
  with Cons.prems(2) obtain rs' where "create_channels ns st1 = (rs', st')"
    by (auto split: prod.splits)
  moreover have "registry_ok st1" using CreateChannel_ok [OF Cons.prems(1), of n] c by simp
  moreover have "map ch_name (channel_heap st1)
      = (if n \<in> set (map ch_name (channel_heap st)) then map ch_name (channel_heap st)
         else map ch_name (channel_heap st) @ [n])"
    using c CreateChannel_eq [OF Cons.prems(1), of n] by (auto simp: Channel_new_def split: if_splits)
  ultimately show ?case using Cons.IH by fastforce
qed simp



text \<open>
  A valid channel name whose bytes are printable parameter bytes travels as an
  ordinary parameter: the serializer writes \<open>JOIN\<close> with it without a trailing marker, and
  the parser reads the same message back.
\<close>

theorem channel_name_on_wire:
  assumes "str_split (str_split_max env)" and "IsValidChannelName name"
    and "list_all (IsParamStartChar (char_signed env)) name"
  shows "wire_text (empty_message\<lparr>m_command := ''JOIN'', m_params := [name]\<rparr>) = ''JOIN '' @ name @ [CR, LF]
    \<and> (\<exists>p'. Parse env empty_message (''JOIN '' @ name @ [CR, LF]) MessageParser_init
         = (Complete, [], p', empty_message\<lparr>m_command := ''JOIN'', m_params := [name]\<rparr>))"
proof -
  let ?msg = "empty_message\<lparr>m_command := ''JOIN'', m_params := [name]\<rparr>"
  have "\<not> IsValidChannelName name" if "c \<in> set name" "c = CHR '':'' \<or> c = SP" for c
  proof -
    have "\<exists>c \<in> set name. c \<in> set [CHR '','', CHR '':'', SP, CHR 0x07]"
      using that by (intro bexI [of _ c]) auto
    then show ?thesis unfolding IsValidChannelName_def by presburger
  qed
  with assms(2) have "CHR '':'' \<notin> set name" "SP \<notin> set name" by blast+
  moreover have "name \<noteq> []" using assms(2) by (auto simp: IsValidChannelName_def)
  ultimately have "name \<noteq> []" "hd name \<noteq> CHR '':''" "SP \<notin> set name"
    by (simp_all, metis hd_in_set)
  then have "\<not> RequiresTrailingMarker name" by (simp add: RequiresTrailingMarker_def)
  then have w: "wire_text ?msg = ''JOIN '' @ name @ [CR, LF]"
    by (simp add: wire_text_def tags_text_def prefix_text_def empty_message_def)
  have "command_ok ''JOIN''" by code_simp
  then have "wf_message env ?msg"
    using assms(3)
    by (auto simp: wf_message_def empty_message_def tags_ok_def prefix_ok_def params_ok_def
        trailing_ok_def middle_char_def list_all_iff)
  from Parse_wire_text [OF assms(1) this] w show ?thesis
    by (simp add: tags_printable_def empty_message_def del: Parse.simps)
qed

theorem channel_name_on_wire_witness:
  "\<exists>p'. Parse \<lparr>char_signed = True, make_address = (\<lambda>_. False), str_split_max = split_max, moved_from = (\<lambda>_. [])\<rparr>
     empty_message (''JOIN #isabelle'' @ [CR, LF]) MessageParser_init
     = (Complete, [], p', empty_message\<lparr>m_command := ''JOIN'', m_params := [''#isabelle'']\<rparr>)"
proof -
  let ?env = "\<lparr>char_signed = True, make_address = (\<lambda>_. False), str_split_max = split_max,
    moved_from = (\<lambda>_. [])\<rparr>"
  have "str_split (str_split_max ?env)" by (simp add: abseil.str_split_axioms)
  moreover have "IsValidChannelName ''#isabelle''" by code_simp
  moreover have "list_all (IsParamStartChar (char_signed ?env)) ''#isabelle''" by code_simp
  ultimately show ?thesis using channel_name_on_wire [of ?env "''#isabelle''"] by (simp del: Parse.simps)
qed

section \<open>Sessions\<close>

text \<open>The status of the first event that ends the session.\<close>

fun ending :: "sco_event \<Rightarrow> status option" where
  "ending (FromConnection (OnError i st)) = Some st"
| "ending (FromConnection (OnDisconnect i)) = Some OkStatus"
| "ending ev = None"

lemma sco_after_end:
  "fold (sco_handle cl api) evs (\<lparr>sco_session = False, sco_connection = False\<rparr>, w)
     = (\<lparr>sco_session = False, sco_connection = False\<rparr>, w)"
proof (induction evs)
  case (Cons ev evs)
  have "sco_handle cl api ev (\<lparr>sco_session = False, sco_connection = False\<rparr>, w)
      = (\<lparr>sco_session = False, sco_connection = False\<rparr>, w)"
    by (cases ev) (auto simp: sco_handle_def sco_OnMessage_def sco_OnError_def sco_OnDisconnect_def
        OnMessageEmitted_def split: conn_event.split)
  with Cons show ?case by simp
qed simp

text \<open>
  C31. The session behind a connection is closed at most once, with the status of the first
  error or disconnect (\<open>Ok\<close> for a disconnect); whatever arrives later touches neither the
  session nor the connection, and messages emitted before go to the write queue in order.
\<close>

theorem session_closed_once:
  "fold (sco_handle Session_Close api) evs (SessionConnectionObserver_new, w) =
     (let before = takeWhile (\<lambda>ev. ending ev = None) evs;
          conn = fold (\<lambda>msg c. snd (DeliverResponse api msg c))
            (List.map_filter (\<lambda>ev. case ev of Emitted msg \<Rightarrow> Some msg | _ \<Rightarrow> None) before)
            (w_connection w)
      in case List.map_filter ending evs of
           [] \<Rightarrow> (SessionConnectionObserver_new, w\<lparr>w_connection := conn\<rparr>)
         | st # _ \<Rightarrow> (\<lparr>sco_session = False, sco_connection = False\<rparr>,
                      w\<lparr>w_connection := conn, w_session := Session_Close st (w_session w)\<rparr>))"
proof (induction evs arbitrary: w)
  case Nil
  then show ?case by (simp add: map_filter_simps)
next
  case (Cons ev evs)
  show ?case
  proof (cases "ending ev")
    case (Some st)
    then have "sco_handle Session_Close api ev (SessionConnectionObserver_new, w)
        = (\<lparr>sco_session = False, sco_connection = False\<rparr>, w\<lparr>w_session := Session_Close st (w_session w)\<rparr>)"
      by (cases ev rule: ending.cases)
        (auto simp: sco_handle_def sco_OnError_def sco_OnDisconnect_def SessionConnectionObserver_new_def)
    then show ?thesis using Some by (simp add: sco_after_end map_filter_simps)
  next
    case None
    then show ?thesis using Cons.IH
      by (cases ev rule: ending.cases)
        (auto simp: sco_handle_def sco_OnMessage_def OnMessageEmitted_def AcceptMessage_def
          SessionConnectionObserver_new_def map_filter_simps Let_def split: list.split)
  qed
qed

end
