(* ===== verification/Win_Watcher.thy ===== *)
theory Win_Watcher
  imports Birch_Prelude "HOL-Library.Multiset"
begin

text \<open>
  The Windows file watcher: \<open>util/WinFileWatcher.h\<close>, \<open>util/WinFileWatcher.cc\<close>.

  As for the kqueue watcher, what the system answers is an argument of the operation that
  asks, and the part of the system's state the code is responsible for is a record: the open
  handles, the directory reads in progress (each named by the \<open>WinDirWatcher\<close> whose buffer
  and \<open>OVERLAPPED\<close> it uses, which is what \<open>io->owner\<close> gives back) and the reads that were
  cancelled and have not completed yet. Directory watchers are objects on a heap; their
  \<open>shared_ptr\<close>s are the entries of \<open>m_dirWatchers\<close> and \<open>m_draining\<close>, and where the code drops
  the last one the destructor is run by \<open>win_release\<close>. A completion for an object that is
  gone is the fault \<open>UseAfterFree\<close>, a read past the 32 kB buffer is \<open>BufferOverread\<close>.

  Wide strings are lists of 16-bit words; \<open>CharLowerBuffW\<close> is the parameter \<open>lower\<close>. The
  locals of the thread function \<open>Run\<close> are fields, the callbacks that were called are
  recorded in \<open>win_fired\<close>. Times are in nanoseconds. Log messages are not modelled.
\<close>

section \<open>The system\<close>

type_synonym wstring = "16 word list"
type_synonym handle = int
type_synonym dw_ptr = nat
type_synonym WinWatchId = "64 word"

definition INVALID_HANDLE_VALUE :: handle where "INVALID_HANDLE_VALUE = -1"

record win_os =
  os_handles :: "handle list"
  os_reads :: "dw_ptr list"
  os_cancelled :: "dw_ptr list"

definition os_CloseHandle :: "handle \<Rightarrow> win_os \<Rightarrow> win_os" where
  "os_CloseHandle h os = os\<lparr>os_handles := remove1 h (os_handles os)\<rparr>"

definition os_complete :: "dw_ptr \<Rightarrow> win_os \<Rightarrow> win_os" where
  "os_complete a os =
     os\<lparr>os_reads := remove1 a (os_reads os), os_cancelled := filter (\<lambda>b. b \<noteq> a) (os_cancelled os)\<rparr>"

fun decimal :: "nat \<Rightarrow> string" where
  "decimal n = (if n < 10 then [char_of (48 + n)] else decimal (n div 10) @ [char_of (48 + n mod 10)])"

declare decimal.simps [simp del]

definition WinErrorToStatus :: "32 word \<Rightarrow> string \<Rightarrow> status" where
  "WinErrorToStatus error context =
     InternalError (context @ '': GetLastError='' @ decimal (unat error))"

definition ToLowerKey :: "(wstring \<Rightarrow> wstring) \<Rightarrow> wstring \<Rightarrow> wstring" where
  "ToLowerKey lower s = (if s \<noteq> [] then lower s else s)"

section \<open>Directory watchers\<close>

record 'cb Entry =
  e_id :: WinWatchId
  reportPath :: wstring
  e_callback :: 'cb

record 'cb WinDirWatcher =
  m_dirHandle :: handle
  m_dir :: wstring
  m_buffer :: "8 word list"
  dw_watches :: "(wstring \<times> 'cb Entry list) list"

definition kBufferBytes :: nat where "kBufferBytes = 32 * 1024"

definition WinDirWatcher_new :: "wstring \<Rightarrow> handle \<Rightarrow> 'cb WinDirWatcher" where
  "WinDirWatcher_new dir h =
     \<lparr>m_dirHandle = h, m_dir = dir, m_buffer = replicate kBufferBytes 0, dw_watches = []\<rparr>"

text \<open>\<open>opened\<close> and \<open>associated\<close> are the answers of \<open>CreateFileW\<close> and of
  \<open>CreateIoCompletionPort\<close>, each with the error \<open>GetLastError\<close> would give.\<close>

definition WinDirWatcher_Open ::
  "handle \<times> 32 word \<Rightarrow> bool \<times> 32 word \<Rightarrow> wstring \<Rightarrow> win_os
     \<Rightarrow> 'cb WinDirWatcher status_or \<times> win_os" where
  "WinDirWatcher_Open opened associated dir os =
     (let h = fst opened in
        if h = INVALID_HANDLE_VALUE then (Inl (WinErrorToStatus (snd opened) ''CreateFileW(dir)''), os)
        else
          (let os = os\<lparr>os_handles := h # os_handles os\<rparr> in
             if \<not> fst associated
             then (Inl (WinErrorToStatus (snd associated) ''CreateIoCompletionPort(dir)''), os_CloseHandle h os)
             else (Inr (WinDirWatcher_new dir h), os)))"

definition WinDirWatcher_destroy :: "'cb WinDirWatcher \<Rightarrow> win_os \<Rightarrow> win_os" where
  "WinDirWatcher_destroy dw os =
     (if m_dirHandle dw \<noteq> INVALID_HANDLE_VALUE then os_CloseHandle (m_dirHandle dw) os else os)"

definition IssueRead :: "bool \<Rightarrow> dw_ptr \<Rightarrow> 'cb WinDirWatcher \<Rightarrow> win_os \<Rightarrow> bool \<times> win_os" where
  "IssueRead ok a dw os =
     (if m_dirHandle dw = INVALID_HANDLE_VALUE then (False, os)
      else if \<not> ok then (False, os)
      else (True, os\<lparr>os_reads := a # os_reads os\<rparr>))"

definition Cancel :: "dw_ptr \<Rightarrow> 'cb WinDirWatcher \<Rightarrow> win_os \<Rightarrow> win_os" where
  "Cancel a dw os =
     (if m_dirHandle dw \<noteq> INVALID_HANDLE_VALUE \<and> a \<in> set (os_reads os)
      then os\<lparr>os_cancelled := a # os_cancelled os\<rparr> else os)"

definition dw_Add :: "wstring \<Rightarrow> 'cb Entry \<Rightarrow> 'cb WinDirWatcher \<Rightarrow> 'cb WinDirWatcher" where
  "dw_Add fileNameKey entry dw =
     dw\<lparr>dw_watches :=
          (case map_of (dw_watches dw) fileNameKey of
             None \<Rightarrow> dw_watches dw @ [(fileNameKey, [entry])]
           | Some es \<Rightarrow> AList.update fileNameKey (es @ [entry]) (dw_watches dw))\<rparr>"

definition dw_Remove :: "WinWatchId \<Rightarrow> wstring \<Rightarrow> 'cb WinDirWatcher \<Rightarrow> bool \<times> 'cb WinDirWatcher" where
  "dw_Remove i fileNameKey dw =
     (case map_of (dw_watches dw) fileNameKey of
        None \<Rightarrow> (False, dw)
      | Some es \<Rightarrow>
          (let kept = filter (\<lambda>e. e_id e \<noteq> i) es in
             (length kept < length es,
              dw\<lparr>dw_watches :=
                   (if kept = [] then AList.delete fileNameKey (dw_watches dw)
                    else AList.update fileNameKey kept (dw_watches dw))\<rparr>)))"

definition dw_Empty :: "'cb WinDirWatcher \<Rightarrow> bool" where
  "dw_Empty dw \<longleftrightarrow> dw_watches dw = []"

text \<open>The set of dirty watches is a list without repetitions.\<close>

definition dirty_insert :: "WinWatchId \<Rightarrow> WinWatchId list \<Rightarrow> WinWatchId list" where
  "dirty_insert i dirty = (if i \<in> set dirty then dirty else dirty @ [i])"

definition CollectAllDirty :: "'cb WinDirWatcher \<Rightarrow> WinWatchId list \<Rightarrow> WinWatchId list" where
  "CollectAllDirty dw dirty =
     fold (\<lambda>(_, vec) dirty. fold (\<lambda>e. dirty_insert (e_id e)) vec dirty) (dw_watches dw) dirty"

text \<open>
  The records \<open>ReadDirectoryChangesW\<close> leaves in the buffer: \<open>NextEntryOffset\<close>, \<open>Action\<close>,
  \<open>FileNameLength\<close> as little-endian 32-bit words, then the name. The structure's size is
  16, its last field being an array of one character, padded.
\<close>

definition byte_at :: "8 word list \<Rightarrow> nat \<Rightarrow> nat" where
  "byte_at buf p = unat (buf ! p)"

definition dword_at :: "8 word list \<Rightarrow> nat \<Rightarrow> nat" where
  "dword_at buf p =
     byte_at buf p + 256 * (byte_at buf (p + 1) + 256 * (byte_at buf (p + 2) + 256 * byte_at buf (p + 3)))"

fun wchars_at :: "8 word list \<Rightarrow> nat \<Rightarrow> nat \<Rightarrow> wstring" where
  "wchars_at buf p 0 = []"
| "wchars_at buf p (Suc n) = word_of_nat (byte_at buf p + 256 * byte_at buf (p + 1)) # wchars_at buf (p + 2) n"

definition sizeof_FILE_NOTIFY_INFORMATION :: nat where "sizeof_FILE_NOTIFY_INFORMATION = 16"

definition NextEntryOffset :: "8 word list \<Rightarrow> nat \<Rightarrow> nat" where "NextEntryOffset buf p = dword_at buf p"
definition FileNameLength :: "8 word list \<Rightarrow> nat \<Rightarrow> nat" where "FileNameLength buf p = dword_at buf (p + 8)"

definition collect_record ::
  "(wstring \<Rightarrow> wstring) \<Rightarrow> 'cb WinDirWatcher \<Rightarrow> nat \<Rightarrow> WinWatchId list \<Rightarrow> WinWatchId list" where
  "collect_record lower dw p dirty =
     (let name = wchars_at (m_buffer dw) (p + 12) (FileNameLength (m_buffer dw) p div 2);
          key = ToLowerKey lower name
      in case map_of (dw_watches dw) key of
           None \<Rightarrow> dirty
         | Some es \<Rightarrow> fold (\<lambda>e. dirty_insert (e_id e)) es dirty)"

text \<open>\<open>None\<close> is a record that reaches past the buffer.\<close>

function CollectDirty_loop ::
  "(wstring \<Rightarrow> wstring) \<Rightarrow> 'cb WinDirWatcher \<Rightarrow> nat \<Rightarrow> nat \<Rightarrow> WinWatchId list
     \<Rightarrow> WinWatchId list option" where
  "CollectDirty_loop lower dw stop p dirty =
     (if p + sizeof_FILE_NOTIFY_INFORMATION \<le> stop then
        (if length (m_buffer dw) < p + 16
            \<or> length (m_buffer dw) < p + 12 + 2 * (FileNameLength (m_buffer dw) p div 2)
         then None
         else
           (let dirty = collect_record lower dw p dirty;
                next_offset = NextEntryOffset (m_buffer dw) p
            in if next_offset = 0 then Some dirty
               else CollectDirty_loop lower dw stop (p + next_offset) dirty))
      else Some dirty)"
  by pat_completeness auto
termination
  by (relation "measure (\<lambda>(lower, dw, stop, p, dirty). stop - p)")
    (auto simp: sizeof_FILE_NOTIFY_INFORMATION_def)

declare CollectDirty_loop.simps [simp del]

definition CollectDirty ::
  "(wstring \<Rightarrow> wstring) \<Rightarrow> nat \<Rightarrow> 'cb WinDirWatcher \<Rightarrow> WinWatchId list \<Rightarrow> WinWatchId list option" where
  "CollectDirty lower bytesTransferred dw dirty =
     (if bytesTransferred = 0 then Some (CollectAllDirty dw dirty)
      else CollectDirty_loop lower dw bytesTransferred 0 dirty)"

text \<open>\<open>ForEachEntry\<close> hands the first entry with the identifier, if any, to its argument.\<close>

definition ForEachEntry :: "WinWatchId \<Rightarrow> 'cb WinDirWatcher \<Rightarrow> 'cb Entry option" where
  "ForEachEntry i dw = find (\<lambda>e. e_id e = i) (concat (map snd (dw_watches dw)))"

section \<open>The watcher\<close>

record 'cb WinFileWatcher =
  win_os :: win_os
  win_heap :: "dw_ptr \<Rightarrow> 'cb WinDirWatcher option"
  m_iocp :: handle
  win_m_shutdown :: bool
  win_m_nextWatchId :: WinWatchId
  m_dirWatchers :: "(wstring \<times> dw_ptr) list"
  m_watchLocations :: "(WinWatchId \<times> wstring \<times> wstring) list"
  win_m_pendingUnwatches :: "WinWatchId list"
  win_m_draining :: "dw_ptr list"
  win_dirty :: "WinWatchId list"
  win_deadline :: "int option"
  shuttingDown :: bool
  win_exited :: bool
  win_fired :: "(WinWatchId \<times> 'cb \<times> wstring) list"

definition WinFileWatcher_new :: "handle \<Rightarrow> win_os \<Rightarrow> 'cb WinFileWatcher" where
  "WinFileWatcher_new iocp os =
     \<lparr>win_os = os, win_heap = (\<lambda>_. None), m_iocp = iocp, win_m_shutdown = False, win_m_nextWatchId = 1,
      m_dirWatchers = [], m_watchLocations = [], win_m_pendingUnwatches = [], win_m_draining = [],
      win_dirty = [], win_deadline = None, shuttingDown = False, win_exited = False, win_fired = []\<rparr>"

text \<open>\<open>port\<close> is the completion port, \<open>None\<close> for null, and the error.\<close>

definition WinFileWatcher_Create ::
  "handle option \<times> 32 word \<Rightarrow> win_os \<Rightarrow> 'cb WinFileWatcher status_or" where
  "WinFileWatcher_Create port os =
     (case fst port of
        None \<Rightarrow> Inl (WinErrorToStatus (snd port) ''CreateIoCompletionPort'')
      | Some iocp \<Rightarrow> Inr (WinFileWatcher_new iocp (os\<lparr>os_handles := iocp # os_handles os\<rparr>)))"

text \<open>The destructor asks the thread to end, waits for it (\<open>win_exited\<close>) and closes the port.\<close>

definition win_request_shutdown :: "'cb WinFileWatcher \<Rightarrow> 'cb WinFileWatcher" where
  "win_request_shutdown st = st\<lparr>win_m_shutdown := True\<rparr>"

definition win_after_join :: "'cb WinFileWatcher \<Rightarrow> 'cb WinFileWatcher" where
  "win_after_join st =
     (if m_iocp st \<noteq> INVALID_HANDLE_VALUE
      then st\<lparr>win_os := os_CloseHandle (m_iocp st) (win_os st), m_iocp := INVALID_HANDLE_VALUE\<rparr>
      else st)"

definition win_release :: "dw_ptr \<Rightarrow> 'cb WinFileWatcher \<Rightarrow> 'cb WinFileWatcher" where
  "win_release a st =
     (case win_heap st a of
        None \<Rightarrow> st
      | Some dw \<Rightarrow>
          st\<lparr>win_heap := (win_heap st)(a := None), win_os := WinDirWatcher_destroy dw (win_os st)\<rparr>)"

definition upd_dw ::
  "dw_ptr \<Rightarrow> ('cb WinDirWatcher \<Rightarrow> 'cb WinDirWatcher) \<Rightarrow> 'cb WinFileWatcher \<Rightarrow> 'cb WinFileWatcher" where
  "upd_dw a f st = st\<lparr>win_heap := (win_heap st)(a := map_option f (win_heap st a))\<rparr>"

record win_answers =
  w_canon :: wstring
  w_parent :: wstring
  w_filename :: wstring
  w_current :: wstring
  w_opened :: "handle \<times> 32 word"
  w_associated :: "bool \<times> 32 word"
  w_issued :: bool
  w_new :: dw_ptr

record WinWatchHandle =
  wh_id :: WinWatchId
  wh_watcher :: bool

text \<open>The common end of \<open>WatchFile\<close>: the entry and its location are recorded.\<close>

definition win_register ::
  "dw_ptr \<Rightarrow> wstring \<Rightarrow> wstring \<Rightarrow> 'cb Entry \<Rightarrow> 'cb WinFileWatcher \<Rightarrow> 'cb WinFileWatcher" where
  "win_register a dirKey fileNameKey entry st =
     (upd_dw a (dw_Add fileNameKey entry) st)
       \<lparr>m_watchLocations := lhm_emplace (e_id entry) (dirKey, fileNameKey) (m_watchLocations st)\<rparr>"

definition Win_WatchFile ::
  "(wstring \<Rightarrow> wstring) \<Rightarrow> win_answers \<Rightarrow> 'cb \<Rightarrow> 'cb WinFileWatcher
     \<Rightarrow> WinWatchHandle status_or \<times> 'cb WinFileWatcher" where
  "Win_WatchFile lower ans cb st =
     (let dir = w_parent ans; file = w_filename ans in
        if file = [] then (Inl (InvalidArgumentError ''WatchFile: empty filename''), st)
        else
          (let dir = (if dir = [] then w_current ans else dir);
               dirKey = ToLowerKey lower dir;
               fileNameKey = ToLowerKey lower file;
               i = win_m_nextWatchId st;
               st = st\<lparr>win_m_nextWatchId := i + 1\<rparr>;
               entry = \<lparr>e_id = i, reportPath = w_canon ans, e_callback = cb\<rparr>;
               h = \<lparr>wh_id = i, wh_watcher = True\<rparr>
           in case map_of (m_dirWatchers st) dirKey of
                Some a \<Rightarrow> (Inr h, win_register a dirKey fileNameKey entry st)
              | None \<Rightarrow>
                  (case WinDirWatcher_Open (w_opened ans) (w_associated ans) dir (win_os st) of
                     (Inl e, os) \<Rightarrow> (Inl e, st\<lparr>win_os := os\<rparr>)
                   | (Inr dw, os) \<Rightarrow>
                       (let a = w_new ans;
                            st = st\<lparr>win_os := os, win_heap := (win_heap st)(a := Some dw),
                                    m_dirWatchers := lhm_emplace dirKey a (m_dirWatchers st)\<rparr>;
                            st = win_register a dirKey fileNameKey entry st
                        in case IssueRead (w_issued ans) a dw (win_os st) of
                             (True, os) \<Rightarrow> (Inr h, st\<lparr>win_os := os\<rparr>)
                           | (False, os) \<Rightarrow>
                               (let st = upd_dw a (\<lambda>dw. snd (dw_Remove i fileNameKey dw)) (st\<lparr>win_os := os\<rparr>);
                                    st = st\<lparr>m_watchLocations := AList.delete i (m_watchLocations st),
                                            m_dirWatchers := AList.delete dirKey (m_dirWatchers st)\<rparr>
                                in (Inl (InternalError ''ReadDirectoryChangesW initial issue failed''),
                                    win_release a st))))))"

definition Win_CloseWatch :: "WinWatchId \<Rightarrow> 'cb WinFileWatcher \<Rightarrow> 'cb WinFileWatcher" where
  "Win_CloseWatch i st = st\<lparr>win_m_pendingUnwatches := win_m_pendingUnwatches st @ [i]\<rparr>"

text \<open>\<open>Unwatch\<close> of a handle, also run by its destructor.\<close>

definition DoUnwatch ::
  "bool \<Rightarrow> WinWatchHandle \<times> 'cb WinFileWatcher \<Rightarrow> WinWatchHandle \<times> 'cb WinFileWatcher" where
  "DoUnwatch alive hs =
     (case hs of (h, st) \<Rightarrow>
        if wh_watcher h \<and> alive then (h\<lparr>wh_watcher := False\<rparr>, Win_CloseWatch (wh_id h) st) else (h, st))"

definition drain_one ::
  "WinWatchId \<Rightarrow> dw_ptr list \<times> 'cb WinFileWatcher \<Rightarrow> dw_ptr list \<times> 'cb WinFileWatcher" where
  "drain_one i acc =
     (case acc of (toCancel, st) \<Rightarrow>
        case map_of (m_watchLocations st) i of
          None \<Rightarrow> (toCancel, st)
        | Some (dirKey, fileNameKey) \<Rightarrow>
            (let st = st\<lparr>m_watchLocations := AList.delete i (m_watchLocations st)\<rparr> in
               case map_of (m_dirWatchers st) dirKey of
                 None \<Rightarrow> (toCancel, st)
               | Some a \<Rightarrow>
                   (let st = upd_dw a (\<lambda>dw. snd (dw_Remove i fileNameKey dw)) st in
                      if dw_Empty (the (win_heap st a))
                      then (toCancel @ [a],
                            st\<lparr>m_dirWatchers := AList.delete dirKey (m_dirWatchers st),
                               win_m_draining := List.insert a (win_m_draining st)\<rparr>)
                      else (toCancel, st))))"

definition win_cancel :: "dw_ptr \<Rightarrow> 'cb WinFileWatcher \<Rightarrow> 'cb WinFileWatcher" where
  "win_cancel a st =
     (case win_heap st a of None \<Rightarrow> st | Some dw \<Rightarrow> st\<lparr>win_os := Cancel a dw (win_os st)\<rparr>)"

definition DrainPendingUnwatches :: "'cb WinFileWatcher \<Rightarrow> 'cb WinFileWatcher" where
  "DrainPendingUnwatches st =
     (case fold drain_one (win_m_pendingUnwatches st) ([], st) of
        (toCancel, st) \<Rightarrow> fold win_cancel toCancel (st\<lparr>win_m_pendingUnwatches := []\<rparr>))"

definition Win_FireDirty ::
  "(WinWatchId list \<Rightarrow> WinWatchId list) \<Rightarrow> 'cb WinFileWatcher \<Rightarrow> 'cb WinFileWatcher" where
  "Win_FireDirty iter st =
     st\<lparr>win_fired := win_fired st @
          List.map_filter (\<lambda>i.
              Option.bind (map_of (m_watchLocations st) i) (\<lambda>(dirKey, fileNameKey).
              Option.bind (map_of (m_dirWatchers st) dirKey) (\<lambda>a.
              Option.bind (win_heap st a) (\<lambda>dw.
              map_option (\<lambda>e. (i, e_callback e, reportPath e)) (ForEachEntry i dw)))))
            (iter (win_dirty st))\<rparr>"

section \<open>The thread\<close>

definition win_kCoalesceWindow :: int where "win_kCoalesceWindow = 50 * 1000000"

text \<open>The shutdown request is noticed: every active directory watcher is cancelled.\<close>

definition begin_shutdown :: "'cb WinFileWatcher \<Rightarrow> 'cb WinFileWatcher" where
  "begin_shutdown st =
     (if \<not> shuttingDown st \<and> win_m_shutdown st then
        (let toCancel = map snd (m_dirWatchers st);
             st = st\<lparr>shuttingDown := True, win_m_draining := fold List.insert toCancel (win_m_draining st),
                     m_dirWatchers := [], m_watchLocations := []\<rparr>
         in (fold win_cancel toCancel st)\<lparr>win_dirty := [], win_deadline := None\<rparr>)
      else st)"

definition INFINITE :: "32 word" where "INFINITE = -1"

definition gqcs_timeout :: "int \<Rightarrow> int option \<Rightarrow> 32 word" where
  "gqcs_timeout now deadline =
     (case deadline of
        None \<Rightarrow> INFINITE
      | Some d \<Rightarrow> if d \<le> now then 0 else word_of_int ((d - now) div 1000000))"

datatype io_result = IoOk (io_bytes: nat) (io_buffer: "8 word list") | IoError "32 word"

datatype gqcs_answer = GqcsFailed | GqcsWake | GqcsIo dw_ptr io_result

datatype win_fault = UseAfterFree | BufferOverread

text \<open>A completion: the system has finished the read and filled the buffer.\<close>

definition completed :: "dw_ptr \<Rightarrow> io_result \<Rightarrow> 'cb WinFileWatcher \<Rightarrow> 'cb WinFileWatcher" where
  "completed a res st =
     (let st = st\<lparr>win_os := os_complete a (win_os st)\<rparr>
      in case res of IoOk bytes buf \<Rightarrow> upd_dw a (\<lambda>dw. dw\<lparr>m_buffer := buf\<rparr>) st | IoError e \<Rightarrow> st)"

text \<open>Taking a directory watcher out of the active ones, which drops the last pointer to it.\<close>

definition retire_active :: "dw_ptr \<Rightarrow> 'cb WinFileWatcher \<Rightarrow> 'cb WinFileWatcher" where
  "retire_active a st =
     (case find (\<lambda>(_, dw). dw = a) (m_dirWatchers st) of
        None \<Rightarrow> st
      | Some kv \<Rightarrow> win_release a (st\<lparr>m_dirWatchers := remove1 kv (m_dirWatchers st)\<rparr>))"

text \<open>A successful read of an active watcher; \<open>reissued\<close> is the answer to the next read.\<close>

definition collect_and_reissue ::
  "(wstring \<Rightarrow> wstring) \<Rightarrow> bool \<Rightarrow> int \<Rightarrow> dw_ptr \<Rightarrow> 'cb WinDirWatcher \<Rightarrow> nat \<Rightarrow> 'cb WinFileWatcher
     \<Rightarrow> win_fault + 'cb WinFileWatcher" where
  "collect_and_reissue lower reissued now a live bytes st =
     (case CollectDirty lower bytes live (win_dirty st) of
        None \<Rightarrow> Inl BufferOverread
      | Some dirty \<Rightarrow>
          (let st = st\<lparr>win_dirty := dirty\<rparr>;
               st = (case IssueRead reissued a live (win_os st) of
                       (True, os) \<Rightarrow> st\<lparr>win_os := os\<rparr>
                     | (False, os) \<Rightarrow> retire_active a (st\<lparr>win_os := os\<rparr>))
           in Inr (if win_dirty st \<noteq> [] \<and> win_deadline st = None
                   then st\<lparr>win_deadline := Some (now + win_kCoalesceWindow)\<rparr> else st)))"

text \<open>
  The flag of the result is true when the loop body goes on to its end and false when it is
  left by \<open>continue\<close>.
\<close>

definition handle_completion ::
  "(wstring \<Rightarrow> wstring) \<Rightarrow> bool \<Rightarrow> int \<Rightarrow> dw_ptr \<Rightarrow> io_result \<Rightarrow> 'cb WinFileWatcher
     \<Rightarrow> win_fault + bool \<times> 'cb WinFileWatcher" where
  "handle_completion lower reissued now a res st =
     (let st = completed a res st in
        case win_heap st a of
          None \<Rightarrow> Inl UseAfterFree
        | Some live \<Rightarrow>
            if a \<in> set (win_m_draining st)
            then Inr (False, win_release a (st\<lparr>win_m_draining := remove1 a (win_m_draining st)\<rparr>))
            else if a \<notin> snd ` set (m_dirWatchers st) then Inr (False, st)
            else
              (case res of
                 IoError e \<Rightarrow> Inr (False, st)
               | IoOk bytes buf \<Rightarrow>
                   (case collect_and_reissue lower reissued now a live bytes st of
                      Inl fault \<Rightarrow> Inl fault
                    | Inr st \<Rightarrow> Inr (True, st))))"

definition win_fire_if_due ::
  "(WinWatchId list \<Rightarrow> WinWatchId list) \<Rightarrow> int \<Rightarrow> 'cb WinFileWatcher \<Rightarrow> 'cb WinFileWatcher" where
  "win_fire_if_due iter now st =
     (case win_deadline st of
        None \<Rightarrow> st
      | Some d \<Rightarrow>
          if d \<le> now then (Win_FireDirty iter st)\<lparr>win_dirty := [], win_deadline := None\<rparr> else st)"

text \<open>One turn of the loop of \<open>Run\<close>. \<open>now\<close> is the clock when a deadline is set, \<open>later\<close> when
  it is tested.\<close>

definition Win_Run_turn ::
  "(wstring \<Rightarrow> wstring) \<Rightarrow> (WinWatchId list \<Rightarrow> WinWatchId list) \<Rightarrow> gqcs_answer \<Rightarrow> bool \<Rightarrow> int \<Rightarrow> int
     \<Rightarrow> 'cb WinFileWatcher \<Rightarrow> win_fault + 'cb WinFileWatcher" where
  "Win_Run_turn lower iter ans reissued now later st =
     (let st = begin_shutdown (DrainPendingUnwatches st) in
        if shuttingDown st \<and> win_m_draining st = [] then Inr (st\<lparr>win_exited := True\<rparr>)
        else
          (case ans of
             GqcsIo a res \<Rightarrow>
               (case handle_completion lower reissued now a res st of
                  Inl fault \<Rightarrow> Inl fault
                | Inr (go_on, st) \<Rightarrow> Inr (if go_on then win_fire_if_due iter later st else st))
           | _ \<Rightarrow> Inr (win_fire_if_due iter later st)))"

section \<open>The watcher as a state machine\<close>

text \<open>
  What other threads and the system may do. A new directory watcher gets an address that is
  not in use; the system completes only reads in progress, and transfers at most what fits
  the buffer. Nobody calls the watcher while it is being destroyed.
\<close>

inductive win_step ::
  "(wstring \<Rightarrow> wstring) \<Rightarrow> 'cb WinFileWatcher \<Rightarrow> 'cb WinFileWatcher \<Rightarrow> bool" for lower where
  watch: "\<not> win_m_shutdown st \<Longrightarrow> win_heap st (w_new ans) = None \<Longrightarrow>
     Win_WatchFile lower ans cb st = (r, st') \<Longrightarrow> win_step lower st st'"
| unwatch: "\<not> win_m_shutdown st \<Longrightarrow> win_step lower st (Win_CloseWatch i st)"
| shutdown: "win_step lower st (win_request_shutdown st)"
| turn: "\<not> win_exited st \<Longrightarrow> mset (iter (win_dirty st)) = mset (win_dirty st) \<Longrightarrow>
     (\<And>a res. ans = GqcsIo a res \<Longrightarrow> a \<in> set (os_reads (win_os st))) \<Longrightarrow>
     Win_Run_turn lower iter ans reissued now later st = Inr st' \<Longrightarrow> win_step lower st st'"

definition win_reachable :: "(wstring \<Rightarrow> wstring) \<Rightarrow> 'cb WinFileWatcher \<Rightarrow> bool" where
  "win_reachable lower st \<longleftrightarrow>
     (\<exists>iocp st0. iocp \<noteq> INVALID_HANDLE_VALUE
        \<and> WinFileWatcher_Create (Some iocp, 0) \<lparr>os_handles = [], os_reads = [], os_cancelled = []\<rparr>
        = Inr st0 \<and> (win_step lower)\<^sup>*\<^sup>* st0 st)"

section \<open>An example\<close>

text \<open>A watcher of one file, for examples.\<close>

definition sample_lower :: "wstring \<Rightarrow> wstring" where
  "sample_lower = map (\<lambda>c. if 65 \<le> c \<and> c \<le> 90 then c + 32 else c)"

definition sample_win_answers :: win_answers where
  "sample_win_answers = \<lparr>w_canon = [67, 58, 92, 66, 92, 65], w_parent = [67, 58, 92, 66], w_filename = [65, 97],
     w_current = [67, 58], w_opened = (12, 0), w_associated = (True, 0), w_issued = True, w_new = 1\<rparr>"

definition sample_win0 :: "unit WinFileWatcher" where
  "sample_win0 = WinFileWatcher_new 4 \<lparr>os_handles = [4], os_reads = [], os_cancelled = []\<rparr>"

definition sample_win :: "unit WinFileWatcher" where
  "sample_win = snd (Win_WatchFile sample_lower sample_win_answers () sample_win0)"

lemma sample_win0_created:
  "WinFileWatcher_Create (Some 4, 0) \<lparr>os_handles = [], os_reads = [], os_cancelled = []\<rparr> = Inr sample_win0"
  by (simp add: sample_win0_def WinFileWatcher_Create_def)

lemmas sample_win_simps = sample_win_def sample_win0_def WinFileWatcher_new_def Win_WatchFile_def sample_win_answers_def
  ToLowerKey_def sample_lower_def WinDirWatcher_Open_def INVALID_HANDLE_VALUE_def WinDirWatcher_new_def
  IssueRead_def win_register_def upd_dw_def lhm_emplace_def Let_def

lemma sample_win_result:
  "Win_WatchFile sample_lower sample_win_answers () sample_win0 = (Inr \<lparr>wh_id = 1, wh_watcher = True\<rparr>, sample_win)"
  by (simp add: sample_win_simps)

lemma sample_win_fields:
  "os_reads (win_os sample_win) = [1]" "os_handles (win_os sample_win) = [12, 4]" "win_m_draining sample_win = []"
  "m_dirWatchers sample_win = [([99, 58, 92, 98], 1)]" "win_m_shutdown sample_win = False"
  "win_exited sample_win = False" "shuttingDown sample_win = False" "win_m_pendingUnwatches sample_win = []"
  by (simp_all add: sample_win_simps)

end
