(* ===== verification/Win_Invariant.thy ===== *)
theory Win_Invariant
  imports Win_Watcher
begin

text \<open>
  The invariant of the Windows watcher: who owns a directory watcher, which reads are in
  progress, which handles are open, and in which phase the thread is. Every step of the
  watcher keeps it.
\<close>

section \<open>Invariant\<close>

text \<open>The heap and the handles: what is open is the port and one handle per live object.\<close>

definition dw_handle :: "'cb WinFileWatcher \<Rightarrow> dw_ptr \<Rightarrow> handle" where
  "dw_handle st a = m_dirHandle (the (win_heap st a))"

definition heap_ok :: "'cb WinFileWatcher \<Rightarrow> bool" where
  "heap_ok st \<longleftrightarrow>
     finite (dom (win_heap st))
     \<and> (\<forall>a dw. win_heap st a = Some dw \<longrightarrow> m_dirHandle dw \<noteq> INVALID_HANDLE_VALUE)
     \<and> mset (os_handles (win_os st)) =
         add_mset (m_iocp st) (image_mset (dw_handle st) (mset_set (dom (win_heap st))))"

text \<open>
  Ownership: every live object is either active or draining, once; every read in progress
  uses a live object; and the reads of draining objects are cancelled, except for those
  about to be (\<open>C\<close>).
\<close>

definition own_ok :: "dw_ptr set \<Rightarrow> 'cb WinFileWatcher \<Rightarrow> bool" where
  "own_ok C st \<longleftrightarrow>
     distinct (map fst (m_dirWatchers st))
     \<and> distinct (map snd (m_dirWatchers st) @ win_m_draining st)
     \<and> dom (win_heap st) = snd ` set (m_dirWatchers st) \<union> set (win_m_draining st)
     \<and> distinct (os_reads (win_os st))
     \<and> set (os_reads (win_os st)) \<subseteq> snd ` set (m_dirWatchers st) \<union> set (win_m_draining st)
     \<and> (\<forall>a \<in> set (win_m_draining st) - C. a \<in> set (os_reads (win_os st)) \<longrightarrow> a \<in> set (os_cancelled (win_os st)))"

definition win_inv :: "'cb WinFileWatcher \<Rightarrow> bool" where
  "win_inv st \<longleftrightarrow> heap_ok st \<and> own_ok {} st"

lemma win_invD:
  "win_inv st \<Longrightarrow> heap_ok st" "win_inv st \<Longrightarrow> own_ok {} st"
  by (simp_all add: win_inv_def)

lemma heap_ok_cong:
  "heap_ok st \<Longrightarrow> win_heap st' = win_heap st \<Longrightarrow> m_iocp st' = m_iocp st \<Longrightarrow>
     os_handles (win_os st') = os_handles (win_os st) \<Longrightarrow> heap_ok st'"
  by (simp add: heap_ok_def dw_handle_def [abs_def])

lemma own_ok_cong:
  "own_ok C st \<Longrightarrow> win_heap st' = win_heap st \<Longrightarrow> m_dirWatchers st' = m_dirWatchers st \<Longrightarrow>
     win_m_draining st' = win_m_draining st \<Longrightarrow> win_os st' = win_os st \<Longrightarrow> own_ok C st'"
  by (simp add: own_ok_def)

lemma win_inv_new:
  "WinFileWatcher_Create (Some iocp, e) \<lparr>os_handles = [], os_reads = [], os_cancelled = []\<rparr> = Inr st
     \<Longrightarrow> win_inv st"
  by (auto simp: WinFileWatcher_Create_def WinFileWatcher_new_def win_inv_def heap_ok_def own_ok_def)

lemma upd_dw_fields [simp]:
  "win_os (upd_dw a f st) = win_os st" "m_iocp (upd_dw a f st) = m_iocp st"
  "m_dirWatchers (upd_dw a f st) = m_dirWatchers st" "win_m_draining (upd_dw a f st) = win_m_draining st"
  "m_watchLocations (upd_dw a f st) = m_watchLocations st" "win_exited (upd_dw a f st) = win_exited st"
  "dom (win_heap (upd_dw a f st)) = dom (win_heap st)"
  "shuttingDown (upd_dw a f st) = shuttingDown st" "win_m_shutdown (upd_dw a f st) = win_m_shutdown st"
  by (auto simp: upd_dw_def)

lemma heap_ok_upd_dw:
  assumes "heap_ok st" and "\<And>dw. m_dirHandle (f dw) = m_dirHandle dw"
  shows "heap_ok (upd_dw a f st)"
proof -
  have "image_mset (dw_handle (upd_dw a f st)) (mset_set (dom (win_heap st)))
      = image_mset (dw_handle st) (mset_set (dom (win_heap st)))"
    using assms by (intro image_mset_cong) (auto simp: upd_dw_def dw_handle_def heap_ok_def)
  moreover have "win_heap (upd_dw a f st) b = Some dw \<Longrightarrow> m_dirHandle dw \<noteq> INVALID_HANDLE_VALUE" for b dw
    using assms by (auto simp: upd_dw_def heap_ok_def split: if_splits)
  ultimately show ?thesis using assms(1) unfolding heap_ok_def upd_dw_fields by metis
qed

lemma own_ok_upd_dw: "own_ok C (upd_dw a f st) = own_ok C st"
  by (simp add: own_ok_def)

lemma dw_handle_Add [simp]: "m_dirHandle (dw_Add key e dw) = m_dirHandle dw"
  by (simp add: dw_Add_def)

lemma dw_handle_Remove [simp]: "m_dirHandle (snd (dw_Remove i key dw)) = m_dirHandle dw"
  by (simp add: dw_Remove_def Let_def split: option.split)

lemma heap_ok_alloc:
  assumes "heap_ok st" and "win_heap st a = None" and "m_dirHandle dw \<noteq> INVALID_HANDLE_VALUE"
    and "win_heap st' = (win_heap st)(a \<mapsto> dw)" and "m_iocp st' = m_iocp st"
    and "os_handles (win_os st') = m_dirHandle dw # os_handles (win_os st)"
  shows "heap_ok st'"
proof -
  have fin: "finite (dom (win_heap st))" and na: "a \<notin> dom (win_heap st)"
    using assms(1,2) by (auto simp: heap_ok_def)
  have "image_mset (dw_handle st') (mset_set (dom (win_heap st)))
      = image_mset (dw_handle st) (mset_set (dom (win_heap st)))"
    using fin na by (intro image_mset_cong) (auto simp: dw_handle_def assms(4))
  moreover have "dw_handle st' a = m_dirHandle dw" by (simp add: dw_handle_def assms(4))
  ultimately show ?thesis
    using assms fin na by (auto simp: heap_ok_def mset_set.insert_remove split: if_splits)
qed

lemma heap_ok_release:
  assumes "heap_ok st"
  shows "heap_ok (win_release a st)"
proof (cases "win_heap st a")
  case (Some dw)
  let ?st = "win_release a st"
  have fin: "finite (dom (win_heap st))" and valid: "m_dirHandle dw \<noteq> INVALID_HANDLE_VALUE"
    using assms Some by (auto simp: heap_ok_def)
  have heap: "win_heap ?st = (win_heap st)(a := None)" and iocp: "m_iocp ?st = m_iocp st"
    and handles: "os_handles (win_os ?st) = remove1 (m_dirHandle dw) (os_handles (win_os st))"
    using Some valid by (simp_all add: win_release_def WinDirWatcher_destroy_def os_CloseHandle_def)
  have split: "mset_set (dom (win_heap st)) = add_mset a (mset_set (dom (win_heap st) - {a}))"
    using fin Some by (simp add: domI mset_set.remove)
  have "image_mset (dw_handle ?st) (mset_set (dom (win_heap st) - {a}))
      = image_mset (dw_handle st) (mset_set (dom (win_heap st) - {a}))"
    using fin by (intro image_mset_cong) (auto simp: dw_handle_def heap)
  moreover have "dw_handle st a = m_dirHandle dw" by (simp add: dw_handle_def Some)
  ultimately show ?thesis
    using assms split fin by (auto simp: heap_ok_def heap iocp handles split: if_splits)
qed (use assms in \<open>simp add: win_release_def\<close>)

lemma win_release_fields [simp]:
  "m_dirWatchers (win_release a st) = m_dirWatchers st" "win_m_draining (win_release a st) = win_m_draining st"
  "os_reads (win_os (win_release a st)) = os_reads (win_os st)"
  "os_cancelled (win_os (win_release a st)) = os_cancelled (win_os st)"
  "dom (win_heap (win_release a st)) = dom (win_heap st) - {a}"
  "win_exited (win_release a st) = win_exited st" "shuttingDown (win_release a st) = shuttingDown st"
  "win_m_shutdown (win_release a st) = win_m_shutdown st" "m_iocp (win_release a st) = m_iocp st"
  by (auto simp: win_release_def WinDirWatcher_destroy_def os_CloseHandle_def split: option.splits)

section \<open>Every operation keeps the invariant\<close>

text \<open>Cancelling.\<close>

lemma win_cancel_fields [simp]:
  "win_heap (win_cancel a st) = win_heap st" "m_iocp (win_cancel a st) = m_iocp st"
  "m_dirWatchers (win_cancel a st) = m_dirWatchers st" "win_m_draining (win_cancel a st) = win_m_draining st"
  "os_handles (win_os (win_cancel a st)) = os_handles (win_os st)"
  "os_reads (win_os (win_cancel a st)) = os_reads (win_os st)"
  "shuttingDown (win_cancel a st) = shuttingDown st" "win_exited (win_cancel a st) = win_exited st"
  "win_m_shutdown (win_cancel a st) = win_m_shutdown st"
  "win_m_pendingUnwatches (win_cancel a st) = win_m_pendingUnwatches st"
  "m_watchLocations (win_cancel a st) = m_watchLocations st" "win_fired (win_cancel a st) = win_fired st"
  by (simp_all add: win_cancel_def Cancel_def split: option.split)

lemma fold_win_cancel_fields [simp]:
  "win_heap (fold win_cancel as st) = win_heap st" "m_iocp (fold win_cancel as st) = m_iocp st"
  "m_dirWatchers (fold win_cancel as st) = m_dirWatchers st"
  "win_m_draining (fold win_cancel as st) = win_m_draining st"
  "os_handles (win_os (fold win_cancel as st)) = os_handles (win_os st)"
  "os_reads (win_os (fold win_cancel as st)) = os_reads (win_os st)"
  "shuttingDown (fold win_cancel as st) = shuttingDown st"
  "win_exited (fold win_cancel as st) = win_exited st"
  "win_m_shutdown (fold win_cancel as st) = win_m_shutdown st"
  "win_m_pendingUnwatches (fold win_cancel as st) = win_m_pendingUnwatches st"
  "m_watchLocations (fold win_cancel as st) = m_watchLocations st"
  "win_fired (fold win_cancel as st) = win_fired st"
  by (induction as arbitrary: st) simp_all

lemma own_ok_cancel:
  assumes "own_ok C st" and "heap_ok st"
  shows "own_ok (C - {a}) (win_cancel a st)"
proof -
  have "b \<in> set (os_cancelled (win_os (win_cancel a st)))"
    if "b \<in> set (win_m_draining st)" "b \<in> set (os_reads (win_os st))" "b \<notin> C - {a}" for b
  proof (cases "b = a")
    case True
    with that assms(1) obtain dw where "win_heap st a = Some dw"
      unfolding own_ok_def by (metis UnCI domD)
    with True that assms(2) show ?thesis by (simp add: win_cancel_def Cancel_def heap_ok_def)
  next
    case False
    with that assms(1) have "b \<in> set (os_cancelled (win_os st))" by (auto simp: own_ok_def)
    then show ?thesis by (auto simp: win_cancel_def Cancel_def split: option.splits)
  qed
  then show ?thesis using assms(1) unfolding own_ok_def by simp
qed

lemma heap_ok_fold_cancel: "heap_ok st \<Longrightarrow> heap_ok (fold win_cancel as st)"
  by (erule heap_ok_cong) simp_all

lemma own_ok_fold_cancel:
  "own_ok C st \<Longrightarrow> heap_ok st \<Longrightarrow> own_ok (C - set as) (fold win_cancel as st)"
proof (induction as arbitrary: C st)
  case (Cons a as)
  have "heap_ok (win_cancel a st)" by (rule heap_ok_cong [OF Cons.prems(2)]) simp_all
  moreover have "C - set (a # as) = C - {a} - set as" by auto
  ultimately show ?case using Cons.IH [OF own_ok_cancel [OF Cons.prems]] by (simp only: fold_simps)
qed simp

text \<open>Moving an active watcher to the draining ones.\<close>

lemma own_ok_drain:
  assumes "own_ok C st" and "map_of (m_dirWatchers st) k = Some a"
    and "m_dirWatchers st' = AList.delete k (m_dirWatchers st)"
    and "win_m_draining st' = List.insert a (win_m_draining st)"
    and "dom (win_heap st') = dom (win_heap st)" and "win_os st' = win_os st"
  shows "own_ok (insert a C) st'"
proof -
  obtain xs ys where split: "m_dirWatchers st = xs @ (k, a) # ys"
    using assms(2) by (meson map_of_SomeD split_list)
  have "k \<notin> fst ` set (xs @ ys)" using assms(1) split by (auto simp: own_ok_def)
  then have "AList.delete k xs = xs" "AList.delete k ys = ys"
    by (auto intro!: AList.delete_id)
  then have del: "m_dirWatchers st' = xs @ ys"
    unfolding assms(3) split by (simp add: AList.delete_eq)
  show ?thesis
    using assms(1) unfolding own_ok_def assms(4-6) del split
    by (auto simp: List.insert_def split: if_splits)
qed

lemma drain_one_inv:
  assumes "drain_one i (C, st) = (C', st')" and "heap_ok st" and "own_ok (set C) st"
  shows "heap_ok st' \<and> own_ok (set C') st'"
proof (cases "map_of (m_watchLocations st) i")
  case (Some loc)
  obtain d f where loc: "loc = (d, f)" by (cases loc)
  let ?st = "st\<lparr>m_watchLocations := AList.delete i (m_watchLocations st)\<rparr>"
  have ok: "heap_ok ?st" "own_ok (set C) ?st"
    by (rule heap_ok_cong [OF assms(2)], simp_all, rule own_ok_cong [OF assms(3)], simp_all)
  show ?thesis
  proof (cases "map_of (m_dirWatchers st) d")
    case None
    with Some loc assms(1) ok show ?thesis by (auto simp: drain_one_def)
  next
    case a: (Some a)
    let ?upd = "upd_dw a (\<lambda>dw. snd (dw_Remove i f dw)) ?st"
    let ?move = "?upd\<lparr>m_dirWatchers := AList.delete d (m_dirWatchers st),
      win_m_draining := List.insert a (win_m_draining st)\<rparr>"
    have upd: "heap_ok ?upd" "own_ok (set C) ?upd"
      using ok by (simp_all add: heap_ok_upd_dw own_ok_upd_dw)
    moreover have "heap_ok ?move" by (rule heap_ok_cong [OF upd(1)]) simp_all
    moreover have "own_ok (insert a (set C)) ?move"
      by (rule own_ok_drain [OF upd(2), where k = d]) (simp_all add: a)
    ultimately show ?thesis using Some loc a assms(1)
      by (auto simp: drain_one_def Let_def split: if_splits)
  qed
qed (use assms in \<open>simp add: drain_one_def\<close>)

lemma fold_drain_one_inv:
  "fold drain_one is (C, st) = (C', st') \<Longrightarrow> heap_ok st \<Longrightarrow> own_ok (set C) st \<Longrightarrow>
     heap_ok st' \<and> own_ok (set C') st'"
proof (induction "is" arbitrary: C st)
  case (Cons i "is")
  obtain C1 st1 where d: "drain_one i (C, st) = (C1, st1)" by (metis surj_pair)
  from Cons.IH [of C1 st1] drain_one_inv [OF d Cons.prems(2,3)] Cons.prems(1) d show ?case by simp
qed simp

lemma win_inv_DrainPendingUnwatches:
  assumes "win_inv st"
  shows "win_inv (DrainPendingUnwatches st)"
proof -
  obtain C st1 where d: "fold drain_one (win_m_pendingUnwatches st) ([], st) = (C, st1)" by (metis surj_pair)
  let ?st = "st1\<lparr>win_m_pendingUnwatches := []\<rparr>"
  have "heap_ok st1" "own_ok (set C) st1"
    using fold_drain_one_inv [OF d] assms by (simp_all add: win_inv_def)
  then have "heap_ok ?st" "own_ok (set C) ?st"
    by (auto elim: heap_ok_cong own_ok_cong)
  with own_ok_fold_cancel [of "set C" ?st C] heap_ok_fold_cancel [of ?st C] d show ?thesis
    by (simp add: DrainPendingUnwatches_def win_inv_def)
qed

lemma fold_insert_disjoint:
  "distinct (xs @ ys) \<Longrightarrow> set (fold List.insert xs ys) = set xs \<union> set ys \<and> distinct (fold List.insert xs ys)"
proof (induction xs arbitrary: ys)
  case (Cons x xs)
  then have "distinct (xs @ List.insert x ys)" by (auto simp: List.insert_def)
  from Cons.IH [OF this] show ?case by auto
qed simp

lemma win_inv_begin_shutdown:
  assumes "win_inv st"
  shows "win_inv (begin_shutdown st)"
proof (cases "\<not> shuttingDown st \<and> win_m_shutdown st")
  case True
  let ?as = "map snd (m_dirWatchers st)"
  let ?st = "st\<lparr>shuttingDown := True, win_m_draining := fold List.insert ?as (win_m_draining st),
    m_dirWatchers := [], m_watchLocations := []\<rparr>"
  have "distinct (?as @ win_m_draining st)" using assms by (simp add: win_inv_def own_ok_def)
  from fold_insert_disjoint [OF this] assms have "own_ok (set ?as) ?st"
    by (auto simp: win_inv_def own_ok_def)
  moreover have "heap_ok ?st" by (rule heap_ok_cong [OF win_invD(1) [OF assms]]) simp_all
  ultimately have "own_ok {} (fold win_cancel ?as ?st)" "heap_ok (fold win_cancel ?as ?st)"
    using own_ok_fold_cancel [of "set ?as" ?st ?as] heap_ok_fold_cancel by simp_all
  then show ?thesis using True
    by (auto simp: begin_shutdown_def win_inv_def Let_def elim: heap_ok_cong own_ok_cong)
qed (use assms in \<open>auto simp: begin_shutdown_def\<close>)

text \<open>\<open>WatchFile\<close>: a request that opens no directory only adds an entry.\<close>

lemma win_inv_register:
  assumes "win_inv st"
  shows "win_inv (win_register a d f e st)"
proof -
  have "heap_ok (upd_dw a (dw_Add f e) st)" "own_ok {} (upd_dw a (dw_Add f e) st)"
    using assms by (simp_all add: win_inv_def heap_ok_upd_dw own_ok_upd_dw)
  then show ?thesis by (auto simp: win_inv_def win_register_def elim: heap_ok_cong own_ok_cong)
qed

lemma Open_failed: "WinDirWatcher_Open opened assoc dir os = (Inl e, os') \<Longrightarrow> os' = os"
  by (auto simp: WinDirWatcher_Open_def os_CloseHandle_def Let_def split: if_splits)

lemma Open_succeeded:
  assumes "WinDirWatcher_Open opened assoc dir os = (Inr dw, os')"
  shows "dw = WinDirWatcher_new dir (fst opened)" and "fst opened \<noteq> INVALID_HANDLE_VALUE"
    and "os' = os\<lparr>os_handles := fst opened # os_handles os\<rparr>"
  using assms by (auto simp: WinDirWatcher_Open_def Let_def split: if_splits)

lemma win_inv_unused:
  assumes "win_inv st" and "win_heap st a = None"
  shows "a \<notin> snd ` set (m_dirWatchers st)" "a \<notin> set (win_m_draining st)" "a \<notin> set (os_reads (win_os st))"
  using assms unfolding win_inv_def own_ok_def by blast+

lemma win_inv_open:
  assumes "win_inv st" and "win_heap st a = None" and "map_of (m_dirWatchers st) d = None"
    and "h \<noteq> INVALID_HANDLE_VALUE"
  shows "win_inv (st\<lparr>win_os := (win_os st)\<lparr>os_handles := h # os_handles (win_os st)\<rparr>,
      win_heap := (win_heap st)(a \<mapsto> WinDirWatcher_new dir h),
      m_dirWatchers := lhm_emplace d a (m_dirWatchers st)\<rparr>)" (is "win_inv ?st")
proof -
  have "heap_ok ?st"
    by (rule heap_ok_alloc [OF win_invD(1) [OF assms(1)] assms(2), where dw = "WinDirWatcher_new dir h"])
      (simp_all add: assms(4) WinDirWatcher_new_def)
  moreover have "lhm_emplace d a (m_dirWatchers st) = m_dirWatchers st @ [(d, a)]" "d \<notin> fst ` set (m_dirWatchers st)"
    using assms(3) by (simp add: lhm_emplace_def, simp add: map_of_eq_None_iff)
  with assms(1) win_inv_unused [OF assms(1,2)] have "own_ok {} ?st"
    by (auto simp: win_inv_def own_ok_def)
  ultimately show ?thesis by (simp add: win_inv_def)
qed

lemma win_inv_IssueRead:
  assumes "win_inv st" and "a \<in> snd ` set (m_dirWatchers st)" and "a \<notin> set (os_reads (win_os st))"
  shows "win_inv (st\<lparr>win_os := (win_os st)\<lparr>os_reads := a # os_reads (win_os st)\<rparr>\<rparr>)" (is "win_inv ?st")
proof -
  have "heap_ok ?st" by (rule heap_ok_cong [OF win_invD(1) [OF assms(1)]]) simp_all
  moreover have "a \<notin> set (win_m_draining st)" using assms(1,2) by (auto simp: win_inv_def own_ok_def)
  then have "own_ok {} ?st" using assms by (auto simp: win_inv_def own_ok_def)
  ultimately show ?thesis by (simp add: win_inv_def)
qed

lemma IssueRead_cases:
  assumes "IssueRead ok a dw os = (r, os')" and "m_dirHandle dw \<noteq> INVALID_HANDLE_VALUE"
  shows "r = ok \<and> os' = (if ok then os\<lparr>os_reads := a # os_reads os\<rparr> else os)"
  using assms by (auto simp: IssueRead_def split: if_splits)

text \<open>An initial read that is refused leaves everything as it was but for the identifier.\<close>

lemma win_inv_undo:
  assumes "win_inv st" and "win_heap st a = None"
    and "win_heap st' = win_heap st" and "m_iocp st' = m_iocp st" and "m_dirWatchers st' = m_dirWatchers st"
    and "win_m_draining st' = win_m_draining st" and "win_os st' = win_os st"
  shows "win_inv st'"
  using assms by (auto simp: win_inv_def elim: heap_ok_cong own_ok_cong)

lemma win_inv_WatchFile:
  assumes "win_inv st" and fresh: "win_heap st (w_new ans) = None"
    and r: "Win_WatchFile lower ans cb st = (r, st')"
  shows "win_inv st'"
proof -
  let ?i = "win_m_nextWatchId st" and ?f = "ToLowerKey lower (w_filename ans)" and ?a = "w_new ans"
  let ?dir = "if w_parent ans = [] then w_current ans else w_parent ans"
  let ?d = "ToLowerKey lower ?dir"
  let ?e = "\<lparr>e_id = ?i, reportPath = w_canon ans, e_callback = cb\<rparr>"
  let ?st = "st\<lparr>win_m_nextWatchId := ?i + 1\<rparr>"
  have inv: "win_inv ?st" using assms(1) by (auto simp: win_inv_def elim: heap_ok_cong own_ok_cong)
  consider (none) "w_filename ans = []" | (old) a where "w_filename ans \<noteq> []" "map_of (m_dirWatchers st) ?d = Some a"
    | (err) e os where "w_filename ans \<noteq> []" "map_of (m_dirWatchers st) ?d = None"
        "WinDirWatcher_Open (w_opened ans) (w_associated ans) ?dir (win_os st) = (Inl e :: 'a WinDirWatcher status_or, os)"
    | (new) dw :: "'a WinDirWatcher" and os where "w_filename ans \<noteq> []" "map_of (m_dirWatchers st) ?d = None"
        "WinDirWatcher_Open (w_opened ans) (w_associated ans) ?dir (win_os st) = (Inr dw, os)"
    by (metis not_None_eq sumE surj_pair)
  then show ?thesis
  proof cases
    case none
    with r assms(1) show ?thesis by (simp add: Win_WatchFile_def)
  next
    case old
    with r win_inv_register [OF inv] show ?thesis by (auto simp: Win_WatchFile_def Let_def)
  next
    case err
    with r inv Open_failed [OF err(3)] show ?thesis by (auto simp: Win_WatchFile_def Let_def)
  next
    case new
    note dw = Open_succeeded [OF new(3)]
    let ?o = "?st\<lparr>win_os := os, win_heap := (win_heap st)(?a \<mapsto> dw), m_dirWatchers := lhm_emplace ?d ?a (m_dirWatchers st)\<rparr>"
    let ?r = "win_register ?a ?d ?f ?e ?o"
    have o: "win_inv ?r"
      using win_inv_register [OF win_inv_open [OF inv, of ?a ?d "fst (w_opened ans)" ?dir]] new(2) dw fresh by simp
    have a: "?a \<in> snd ` set (m_dirWatchers ?r)" "?a \<notin> set (os_reads (win_os ?r))"
      using win_inv_unused(3) [OF assms(1) fresh] new(2) dw(3)
      by (simp_all add: win_register_def lhm_emplace_def)
    obtain ok os2 where i: "IssueRead (w_issued ans) ?a dw (win_os ?r) = (ok, os2)" by (metis surj_pair)
    have ok: "ok = w_issued ans" "os2 = (if ok then (win_os ?r)\<lparr>os_reads := ?a # os_reads (win_os ?r)\<rparr> else win_os ?r)"
      using IssueRead_cases [OF i] dw(1,2) by (simp_all add: WinDirWatcher_new_def)
    show ?thesis
    proof (cases ok)
      case True
      with r new i ok win_inv_IssueRead [OF o a] show ?thesis
        by (auto simp: Win_WatchFile_def Let_def)
    next
      case False
      have del: "AList.delete k (m_dirWatchers st @ [(k, ?a)]) = m_dirWatchers st"
        if "map_of (m_dirWatchers st) k = None" for k
        using that by (simp add: AList.delete_eq) (force simp: map_of_eq_None_iff filter_id_conv)
      have "win_heap st' = win_heap st" "m_iocp st' = m_iocp st" "m_dirWatchers st' = m_dirWatchers st"
        "win_m_draining st' = win_m_draining st" "win_os st' = win_os st"
        using r new i ok False dw fresh
        by (auto simp: Win_WatchFile_def Let_def win_register_def win_release_def upd_dw_def
            WinDirWatcher_destroy_def os_CloseHandle_def WinDirWatcher_new_def dw_Add_def dw_Remove_def
            lhm_emplace_def del fun_eq_iff)
      then show ?thesis using win_inv_undo [OF assms(1) fresh] by blast
    qed
  qed
qed

text \<open>A completion: an object whose read has finished may be destroyed.\<close>

lemma win_inv_complete:
  assumes "win_inv st"
  shows "win_inv (st\<lparr>win_os := os_complete a (win_os st)\<rparr>)" (is "win_inv ?st")
proof -
  have "heap_ok ?st" by (rule heap_ok_cong [OF win_invD(1) [OF assms]]) (simp_all add: os_complete_def)
  moreover have "own_ok {} ?st"
    using assms by (auto simp: win_inv_def own_ok_def os_complete_def dest: in_set_remove1 [THEN iffD1, rotated])
  ultimately show ?thesis by (simp add: win_inv_def)
qed

lemma win_inv_retire:
  assumes "win_inv st" and "a \<notin> set (os_reads (win_os st))"
    and "a \<notin> snd ` set ws \<union> set ds"
    and "mset (map snd ws @ ds) = mset (map snd (m_dirWatchers st) @ win_m_draining st) - {#a#}"
    and "distinct (map fst ws)" and "set ds \<subseteq> set (win_m_draining st)"
  shows "win_inv (win_release a (st\<lparr>m_dirWatchers := ws, win_m_draining := ds\<rparr>))" (is "win_inv ?st")
proof -
  have "heap_ok ?st"
    by (rule heap_ok_release, rule heap_ok_cong [OF win_invD(1) [OF assms(1)]]) simp_all
  moreover have d: "distinct (map snd (m_dirWatchers st) @ win_m_draining st)"
    using assms(1) by (simp add: win_inv_def own_ok_def)
  then have "distinct (map snd ws @ ds)"
    using assms(4) by (metis distinct_remove1 mset_eq_imp_distinct_iff mset_remove1)
  moreover have "snd ` set ws \<union> set ds = snd ` set (m_dirWatchers st) \<union> set (win_m_draining st) - {a}"
    using arg_cong [where f = set_mset, OF assms(4)] d
    by (simp add: set_mset_def [symmetric] image_comp)
      (metis distinct_append mset_append mset_map set_append set_image_mset set_mset_mset set_remove1_eq
        mset_remove1 list.set_map d)
  ultimately show ?thesis
    using assms by (auto simp: win_inv_def own_ok_def)
qed

lemma win_inv_fields:
  "win_inv (st\<lparr>win_dirty := x\<rparr>) = win_inv st" "win_inv (st\<lparr>win_deadline := y\<rparr>) = win_inv st"
  "win_inv (st\<lparr>win_fired := z\<rparr>) = win_inv st" "win_inv (st\<lparr>win_exited := b\<rparr>) = win_inv st"
  "win_inv (st\<lparr>win_m_shutdown := b\<rparr>) = win_inv st" "win_inv (st\<lparr>win_m_pendingUnwatches := p\<rparr>) = win_inv st"
  by (auto simp: win_inv_def elim: heap_ok_cong own_ok_cong)

lemma win_inv_upd_dw:
  "win_inv st \<Longrightarrow> (\<And>dw. m_dirHandle (f dw) = m_dirHandle dw) \<Longrightarrow> win_inv (upd_dw a f st)"
  by (simp add: win_inv_def heap_ok_upd_dw own_ok_upd_dw)

lemma completed_inv:
  assumes "win_inv st" and "a \<in> set (os_reads (win_os st))"
  shows "win_inv (completed a res st)" and "a \<notin> set (os_reads (win_os (completed a res st)))"
    and "\<exists>dw. win_heap (completed a res st) a = Some dw \<and> m_dirHandle dw \<noteq> INVALID_HANDLE_VALUE"
proof -
  show inv: "win_inv (completed a res st)"
    using win_inv_complete [OF assms(1)] by (simp add: completed_def Let_def win_inv_upd_dw split: io_result.split)
  show "a \<notin> set (os_reads (win_os (completed a res st)))"
    using assms(1) by (simp add: completed_def Let_def os_complete_def win_inv_def own_ok_def split: io_result.split)
  have "dom (win_heap (completed a res st)) = dom (win_heap st)"
    by (simp add: completed_def Let_def split: io_result.split)
  moreover have "a \<in> dom (win_heap st)" using assms unfolding win_inv_def own_ok_def by blast
  ultimately obtain dw where "win_heap (completed a res st) a = Some dw" by (metis domD)
  with inv show "\<exists>dw. win_heap (completed a res st) a = Some dw \<and> m_dirHandle dw \<noteq> INVALID_HANDLE_VALUE"
    by (auto simp: win_inv_def heap_ok_def)
qed

lemma win_inv_retire_draining:
  assumes "win_inv st" and "a \<notin> set (os_reads (win_os st))" and "a \<in> set (win_m_draining st)"
  shows "win_inv (win_release a (st\<lparr>win_m_draining := remove1 a (win_m_draining st)\<rparr>))"
proof -
  have d: "distinct (map fst (m_dirWatchers st))" "distinct (map snd (m_dirWatchers st) @ win_m_draining st)"
    using assms(1) by (simp_all add: win_inv_def own_ok_def)
  have "win_inv (win_release a (st\<lparr>m_dirWatchers := m_dirWatchers st, win_m_draining := remove1 a (win_m_draining st)\<rparr>))"
    by (rule win_inv_retire [OF assms(1,2)]) (use d assms(3) in \<open>auto dest: notin_set_remove1\<close>)
  then show ?thesis by simp
qed

lemma win_inv_retire_active:
  assumes "win_inv st" and "a \<notin> set (os_reads (win_os st))" and "(k, a) \<in> set (m_dirWatchers st)"
  shows "win_inv (win_release a (st\<lparr>m_dirWatchers := remove1 (k, a) (m_dirWatchers st)\<rparr>))"
proof -
  obtain xs ys where split: "m_dirWatchers st = xs @ (k, a) # ys" "(k, a) \<notin> set xs"
    using assms(3) by (meson split_list_first)
  have d: "distinct (map fst (m_dirWatchers st))" "distinct (map snd (m_dirWatchers st) @ win_m_draining st)"
    using assms(1) by (simp_all add: win_inv_def own_ok_def)
  have rem: "remove1 (k, a) (m_dirWatchers st) = xs @ ys" using split by (simp add: remove1_append)
  have "win_inv (win_release a (st\<lparr>m_dirWatchers := xs @ ys, win_m_draining := win_m_draining st\<rparr>))"
    by (rule win_inv_retire [OF assms(1,2)]) (use d split(1) in \<open>auto simp: image_iff\<close>)
  then show ?thesis by (simp add: rem)
qed

lemma win_inv_retire_active':
  assumes "win_inv st" and "a \<notin> set (os_reads (win_os st))"
  shows "win_inv (retire_active a st)"
proof (cases "find (\<lambda>(_, dw). dw = a) (m_dirWatchers st)")
  case (Some kv)
  then obtain k where kv: "kv = (k, a)" "(k, a) \<in> set (m_dirWatchers st)"
    by (force simp: find_Some_iff in_set_conv_nth)
  with win_inv_retire_active [OF assms kv(2)] Some show ?thesis by (simp add: retire_active_def)
qed (use assms in \<open>simp add: retire_active_def\<close>)

lemma collect_and_reissue_inv:
  assumes "win_inv st" and "a \<notin> set (os_reads (win_os st))" and "a \<in> snd ` set (m_dirWatchers st)"
    and "m_dirHandle live \<noteq> INVALID_HANDLE_VALUE"
    and "collect_and_reissue lower reissued now a live bytes st = Inr st'"
  shows "win_inv st'"
proof -
  obtain dirty where dirty: "CollectDirty lower bytes live (win_dirty st) = Some dirty"
    using assms(5) by (auto simp: collect_and_reissue_def split: option.splits)
  let ?st = "st\<lparr>win_dirty := dirty\<rparr>"
  have inv: "win_inv ?st" using assms(1) by (simp add: win_inv_fields)
  obtain ok os where i: "IssueRead reissued a live (win_os st) = (ok, os)" by (metis surj_pair)
  note ok = IssueRead_cases [OF i assms(4)]
  have "win_inv (?st\<lparr>win_os := os\<rparr>)" if ok
    using win_inv_IssueRead [OF inv] assms(2,3) ok that by simp
  moreover have "win_inv (retire_active a (?st\<lparr>win_os := os\<rparr>))" if "\<not> ok"
    using win_inv_retire_active' [OF inv] assms(2) ok that by simp
  ultimately show ?thesis
    using assms(5) dirty i
    by (auto simp: collect_and_reissue_def Let_def win_inv_fields split: if_splits bool.splits)
qed

lemma handle_completion_inv:
  assumes "win_inv st" and "a \<in> set (os_reads (win_os st))"
  shows "handle_completion lower reissued now a res st \<noteq> Inl UseAfterFree"
    and "handle_completion lower reissued now a res st = Inr (go_on, st') \<Longrightarrow> win_inv st'"
proof -
  let ?st = "completed a res st"
  note inv = completed_inv(1) [OF assms, of res] and nr = completed_inv(2) [OF assms, of res]
  obtain dw where dw: "win_heap ?st a = Some dw" "m_dirHandle dw \<noteq> INVALID_HANDLE_VALUE"
    using completed_inv(3) [OF assms] by blast
  show "handle_completion lower reissued now a res st \<noteq> Inl UseAfterFree"
    using dw(1)
    by (auto simp: handle_completion_def collect_and_reissue_def Let_def
        split: io_result.split option.splits sum.splits)
  assume "handle_completion lower reissued now a res st = Inr (go_on, st')"
  then show "win_inv st'"
    using dw inv win_inv_retire_draining [OF inv nr] collect_and_reissue_inv [OF inv nr _ dw(2)]
    by (auto simp: handle_completion_def Let_def split: io_result.splits if_splits sum.splits)
qed

lemma win_inv_fire_if_due: "win_inv st \<Longrightarrow> win_inv (win_fire_if_due iter now st)"
  by (simp add: win_fire_if_due_def Win_FireDirty_def win_inv_fields split: option.split)

lemma win_reads_before_wait [simp]:
  "os_reads (win_os (begin_shutdown st)) = os_reads (win_os st)"
  "os_reads (win_os (DrainPendingUnwatches st)) = os_reads (win_os st)"
proof -
  show "os_reads (win_os (begin_shutdown st)) = os_reads (win_os st)"
    by (simp add: begin_shutdown_def Let_def)
  have "os_reads (win_os (snd (fold drain_one is (C, st)))) = os_reads (win_os st)" for "is" C
    by (induction "is" arbitrary: C st)
      (auto simp: drain_one_def Let_def split: option.splits prod.splits if_splits)
  then show "os_reads (win_os (DrainPendingUnwatches st)) = os_reads (win_os st)"
    by (simp add: DrainPendingUnwatches_def split: prod.split) (metis snd_conv)
qed

lemma Win_Run_turn_inv:
  assumes "win_inv st" and "\<And>a res. ans = GqcsIo a res \<Longrightarrow> a \<in> set (os_reads (win_os st))"
  shows "Win_Run_turn lower iter ans reissued now later st \<noteq> Inl UseAfterFree"
    and "Win_Run_turn lower iter ans reissued now later st = Inr st' \<Longrightarrow> win_inv st'"
proof -
  let ?st = "begin_shutdown (DrainPendingUnwatches st)"
  have inv: "win_inv ?st"
    using assms(1) by (intro win_inv_begin_shutdown win_inv_DrainPendingUnwatches)
  note completion = handle_completion_inv [OF inv]
  show "Win_Run_turn lower iter ans reissued now later st \<noteq> Inl UseAfterFree"
  proof (cases ans)
    case (GqcsIo a res)
    have "handle_completion lower reissued now a res ?st \<noteq> Inl UseAfterFree"
      using completion(1) assms(2) GqcsIo by simp
    then show ?thesis by (auto simp: Win_Run_turn_def Let_def GqcsIo split: sum.splits)
  qed (simp_all add: Win_Run_turn_def Let_def)
  assume turn: "Win_Run_turn lower iter ans reissued now later st = Inr st'"
  show "win_inv st'"
  proof (cases ans)
    case (GqcsIo a res)
    have "handle_completion lower reissued now a res ?st = Inr (go_on, st1) \<Longrightarrow> win_inv st1" for go_on st1
      using completion(2) assms(2) GqcsIo by simp
    with turn inv show ?thesis
      by (auto simp: Win_Run_turn_def Let_def GqcsIo win_inv_fields win_inv_fire_if_due
          split: sum.splits if_splits)
  qed (use turn inv in \<open>auto simp: Win_Run_turn_def Let_def win_inv_fields win_inv_fire_if_due split: if_splits\<close>)
qed

lemma win_step_inv: "win_step lower st st' \<Longrightarrow> win_inv st \<Longrightarrow> win_inv st'"
  by (induction rule: win_step.induct)
    (auto intro: win_inv_WatchFile Win_Run_turn_inv(2)
      simp: Win_CloseWatch_def win_request_shutdown_def win_inv_fields)

lemma win_reachable_inv:
  assumes "win_reachable lower st"
  shows "win_inv st"
proof -
  obtain iocp st0 where init: "WinFileWatcher_Create (Some iocp, 0)
      \<lparr>os_handles = [], os_reads = [], os_cancelled = []\<rparr> = Inr st0" and steps: "(win_step lower)\<^sup>*\<^sup>* st0 st"
    using assms by (auto simp: win_reachable_def)
  from steps show ?thesis
    by (induction rule: rtranclp_induct) (use init win_inv_new win_step_inv in blast)+
qed

section \<open>Phases\<close>

text \<open>Once the thread shuts down nothing is active; when it has ended nothing is left.\<close>

definition phase_ok :: "'cb WinFileWatcher \<Rightarrow> bool" where
  "phase_ok st \<longleftrightarrow>
     (shuttingDown st \<longrightarrow> win_m_shutdown st \<and> m_dirWatchers st = [])
     \<and> (win_exited st \<longrightarrow> shuttingDown st \<and> win_m_draining st = [])
     \<and> m_iocp st \<noteq> INVALID_HANDLE_VALUE"

abbreviation same_phase :: "'cb WinFileWatcher \<Rightarrow> 'cb WinFileWatcher \<Rightarrow> bool" where
  "same_phase st st' \<equiv> shuttingDown st' = shuttingDown st \<and> win_m_shutdown st' = win_m_shutdown st
     \<and> win_exited st' = win_exited st \<and> m_iocp st' = m_iocp st"

lemma same_phase_WatchFile: "Win_WatchFile lower ans cb st = (r, st') \<Longrightarrow> same_phase st st'"
  by (auto simp: Win_WatchFile_def Let_def win_register_def
      split: if_splits option.splits prod.splits sum.splits bool.splits)

lemma same_phase_drain_one:
  "drain_one i (C, st) = (C', st') \<Longrightarrow>
     same_phase st st' \<and> dom (win_heap st') = dom (win_heap st)
     \<and> (m_dirWatchers st = [] \<longrightarrow> m_dirWatchers st' = [] \<and> win_m_draining st' = win_m_draining st)"
  by (clarsimp simp: drain_one_def Let_def split: option.splits prod.splits if_splits)

lemma same_phase_fold_drain:
  "fold drain_one is (C, st) = (C', st') \<Longrightarrow>
     same_phase st st' \<and> dom (win_heap st') = dom (win_heap st)
     \<and> (m_dirWatchers st = [] \<longrightarrow> m_dirWatchers st' = [] \<and> win_m_draining st' = win_m_draining st)"
proof (induction "is" arbitrary: C st)
  case (Cons i "is")
  obtain C1 st1 where d: "drain_one i (C, st) = (C1, st1)" by (metis surj_pair)
  with Cons.prems have "fold drain_one is (C1, st1) = (C', st')" by simp
  from Cons.IH [OF this] same_phase_drain_one [OF d] show ?case by simp
qed simp

lemma same_phase_Drain:
  "same_phase st (DrainPendingUnwatches st)
   \<and> dom (win_heap (DrainPendingUnwatches st)) = dom (win_heap st)
   \<and> (m_dirWatchers st = [] \<longrightarrow> m_dirWatchers (DrainPendingUnwatches st) = []
        \<and> win_m_draining (DrainPendingUnwatches st) = win_m_draining st)"
proof -
  obtain C st1 where d: "fold drain_one (win_m_pendingUnwatches st) ([], st) = (C, st1)" by (metis surj_pair)
  from same_phase_fold_drain [OF d] show ?thesis by (simp add: DrainPendingUnwatches_def d)
qed

text \<open>The part of a turn before the thread waits.\<close>

abbreviation prepared :: "'cb WinFileWatcher \<Rightarrow> 'cb WinFileWatcher" where
  "prepared st \<equiv> begin_shutdown (DrainPendingUnwatches st)"

lemma prepared_phase:
  assumes "phase_ok st"
  shows "phase_ok (prepared st)" and "win_m_shutdown (prepared st) = win_m_shutdown st"
    and "shuttingDown (prepared st) = win_m_shutdown st"
    and "win_exited (prepared st) = win_exited st" and "m_iocp (prepared st) = m_iocp st"
    and "dom (win_heap (prepared st)) = dom (win_heap st)"
  using assms same_phase_Drain [of st]
  by (auto simp: begin_shutdown_def Let_def phase_ok_def)

lemma completed_fields [simp]:
  "same_phase st (completed a res st)" "m_dirWatchers (completed a res st) = m_dirWatchers st"
  "win_m_draining (completed a res st) = win_m_draining st"
  "dom (win_heap (completed a res st)) = dom (win_heap st)"
  "os_reads (win_os (completed a res st)) = remove1 a (os_reads (win_os st))"
  by (simp_all add: completed_def Let_def os_complete_def split: io_result.split)

lemma retire_active_fields [simp]:
  "same_phase st (retire_active a st)" "win_m_draining (retire_active a st) = win_m_draining st"
  "os_reads (win_os (retire_active a st)) = os_reads (win_os st)"
  "win_deadline (retire_active a st) = win_deadline st" "win_dirty (retire_active a st) = win_dirty st"
  by (simp_all add: retire_active_def win_release_def WinDirWatcher_destroy_def os_CloseHandle_def split: option.split)

lemma retire_active_dom:
  "dom (win_heap st) - {a} \<subseteq> dom (win_heap (retire_active a st))"
  "dom (win_heap (retire_active a st)) \<subseteq> dom (win_heap st)"
  by (simp_all add: retire_active_def split: option.split)

lemma collect_and_reissue_cases:
  assumes "collect_and_reissue lower reissued now a live bytes st = Inr st'"
  obtains dirty deadline os where "os = win_os st"
      "st' = (retire_active a (st\<lparr>win_dirty := dirty, win_os := os\<rparr>))\<lparr>win_deadline := deadline\<rparr>"
  | dirty deadline os where "os = (win_os st)\<lparr>os_reads := a # os_reads (win_os st)\<rparr>"
      "st' = st\<lparr>win_dirty := dirty, win_os := os, win_deadline := deadline\<rparr>"
proof -
  obtain dirty where dirty: "CollectDirty lower bytes live (win_dirty st) = Some dirty"
    using assms by (auto simp: collect_and_reissue_def split: option.splits)
  obtain ok os where i: "IssueRead reissued a live (win_os st) = (ok, os)" by (metis surj_pair)
  define s1 where "s1 = (if ok then st\<lparr>win_dirty := dirty, win_os := os\<rparr>
    else retire_active a (st\<lparr>win_dirty := dirty, win_os := os\<rparr>))"
  have "st' = s1\<lparr>win_deadline := (if win_dirty s1 \<noteq> [] \<and> win_deadline s1 = None
      then Some (now + win_kCoalesceWindow) else win_deadline s1)\<rparr>"
    using assms dirty i by (cases ok) (auto simp: collect_and_reissue_def s1_def Let_def)
  moreover have "os = (if ok then (win_os st)\<lparr>os_reads := a # os_reads (win_os st)\<rparr> else win_os st)"
    using i by (auto simp: IssueRead_def split: if_splits)
  ultimately show thesis using that by (cases ok) (simp_all add: s1_def)
qed

lemma collect_and_reissue_phase:
  assumes "collect_and_reissue lower reissued now a live bytes st = Inr st'"
  shows "same_phase st st'" and "win_m_draining st' = win_m_draining st"
    and "dom (win_heap st) - {a} \<subseteq> dom (win_heap st')" and "dom (win_heap st') \<subseteq> dom (win_heap st)"
    and "set (os_reads (win_os st')) \<subseteq> insert a (set (os_reads (win_os st)))"
proof -
  have "same_phase st st' \<and> win_m_draining st' = win_m_draining st
      \<and> dom (win_heap st) - {a} \<subseteq> dom (win_heap st') \<and> dom (win_heap st') \<subseteq> dom (win_heap st)
      \<and> set (os_reads (win_os st')) \<subseteq> insert a (set (os_reads (win_os st)))"
    using assms
  proof (cases rule: collect_and_reissue_cases)
    case (1 dirty deadline os)
    then show ?thesis
      using retire_active_dom [where st = "st\<lparr>win_dirty := dirty, win_os := os\<rparr>" and a = a] by auto
  qed auto
  then show "same_phase st st'" "win_m_draining st' = win_m_draining st"
    "dom (win_heap st) - {a} \<subseteq> dom (win_heap st')" "dom (win_heap st') \<subseteq> dom (win_heap st)"
    "set (os_reads (win_os st')) \<subseteq> insert a (set (os_reads (win_os st)))" by blast+
qed

text \<open>What a completion can do, by cases.\<close>

lemma handle_completion_cases:
  assumes "handle_completion lower reissued now a res st = Inr (go_on, st')"
  obtains (draining) "a \<in> set (win_m_draining st)"
      "st' = win_release a ((completed a res st)\<lparr>win_m_draining := remove1 a (win_m_draining st)\<rparr>)"
  | (ignored) "a \<notin> set (win_m_draining st)" "st' = completed a res st"
  | (active) live bytes buf where "a \<notin> set (win_m_draining st)" "a \<in> snd ` set (m_dirWatchers st)"
      "res = IoOk bytes buf" "collect_and_reissue lower reissued now a live bytes (completed a res st) = Inr st'"
  using assms
  by (auto simp: handle_completion_def Let_def split: option.splits if_splits io_result.splits sum.splits)

lemma completion_phase:
  assumes "handle_completion lower reissued now a res st = Inr (go_on, st')" and "phase_ok st" and "\<not> win_exited st"
  shows "same_phase st st'" and "phase_ok st'"
    and "dom (win_heap st) - {a} \<subseteq> dom (win_heap st')" and "dom (win_heap st') \<subseteq> dom (win_heap st)"
    and "set (os_reads (win_os st')) \<subseteq> insert a (set (os_reads (win_os st)))"
proof -
  have *: "same_phase st st' \<and> phase_ok st' \<and> dom (win_heap st) - {a} \<subseteq> dom (win_heap st')
      \<and> dom (win_heap st') \<subseteq> dom (win_heap st)
      \<and> set (os_reads (win_os st')) \<subseteq> insert a (set (os_reads (win_os st)))"
    using assms(1)
  proof (cases rule: handle_completion_cases)
    case draining
    have "same_phase st st'" "m_dirWatchers st' = m_dirWatchers st" unfolding draining(2) by simp_all
    moreover have "dom (win_heap st') = dom (win_heap st) - {a}" "os_reads (win_os st') = remove1 a (os_reads (win_os st))"
      unfolding draining(2) by simp_all
    ultimately show ?thesis using assms(2,3) by (auto simp: phase_ok_def dest: notin_set_remove1)
  next
    case ignored
    have "same_phase st st'" "m_dirWatchers st' = m_dirWatchers st" "dom (win_heap st') = dom (win_heap st)"
      "os_reads (win_os st') = remove1 a (os_reads (win_os st))"
      unfolding ignored(2) by simp_all
    then show ?thesis using assms(2,3) by (auto simp: phase_ok_def dest: notin_set_remove1)
  next
    case active
    note c = collect_and_reissue_phase [OF active(4)]
    have "\<not> shuttingDown st" using active(2) assms(2) by (auto simp: phase_ok_def)
    then have "phase_ok st'" using c(1) assms(2,3) by (simp add: phase_ok_def)
    moreover have "same_phase st st'" using c(1) by simp
    moreover have "set (os_reads (win_os st')) \<subseteq> insert a (set (os_reads (win_os st)))"
      using c(5) by (auto dest: notin_set_remove1)
    ultimately show ?thesis using c(3,4) by simp
  qed
  then show "same_phase st st'" "phase_ok st'" "dom (win_heap st) - {a} \<subseteq> dom (win_heap st')"
    "dom (win_heap st') \<subseteq> dom (win_heap st)"
    "set (os_reads (win_os st')) \<subseteq> insert a (set (os_reads (win_os st)))" by blast+
qed

lemma fire_if_due_fields [simp]:
  "same_phase st (win_fire_if_due iter now st)" "m_dirWatchers (win_fire_if_due iter now st) = m_dirWatchers st"
  "win_m_draining (win_fire_if_due iter now st) = win_m_draining st"
  "win_heap (win_fire_if_due iter now st) = win_heap st" "win_os (win_fire_if_due iter now st) = win_os st"
  by (simp_all add: win_fire_if_due_def Win_FireDirty_def split: option.split)

text \<open>What a turn can do, by cases.\<close>

lemma Win_Run_turn_cases:
  assumes "Win_Run_turn lower iter ans reissued now later st = Inr st'"
  obtains (ended) "shuttingDown (prepared st)" "win_m_draining (prepared st) = []" "st' = (prepared st)\<lparr>win_exited := True\<rparr>"
  | (idle) "\<not> (shuttingDown (prepared st) \<and> win_m_draining (prepared st) = [])" "\<forall>a res. ans \<noteq> GqcsIo a res"
      "st' = win_fire_if_due iter later (prepared st)"
  | (io) a res go_on st1 where "\<not> (shuttingDown (prepared st) \<and> win_m_draining (prepared st) = [])" "ans = GqcsIo a res"
      "handle_completion lower reissued now a res (prepared st) = Inr (go_on, st1)"
      "st' = (if go_on then win_fire_if_due iter later st1 else st1)"
  using assms
  by (auto simp: Win_Run_turn_def Let_def split: if_splits gqcs_answer.splits sum.splits)

lemma phase_ok_turn:
  assumes "Win_Run_turn lower iter ans reissued now later st = Inr st'" and "phase_ok st" and "\<not> win_exited st"
  shows "phase_ok st'"
proof -
  note prep = prepared_phase [OF assms(2)]
  from assms(1) show ?thesis
  proof (cases rule: Win_Run_turn_cases)
    case ended
    with prep(1) show ?thesis by (simp add: phase_ok_def)
  next
    case idle
    with prep(1) show ?thesis by (simp add: phase_ok_def)
  next
    case (io a res go_on st1)
    have "phase_ok st1" using completion_phase(2) [OF io(3) prep(1)] prep(4) assms(3) by simp
    with io(4) show ?thesis by (simp add: phase_ok_def)
  qed
qed

lemma phase_ok_step: "win_step lower st st' \<Longrightarrow> phase_ok st \<Longrightarrow> phase_ok st'"
proof (induction rule: win_step.induct)
  case (watch st ans cb r st')
  with same_phase_WatchFile [OF watch(3)] show ?case by (auto simp: phase_ok_def)
next
  case (turn st iter ans reissued now later st')
  with phase_ok_turn [OF turn(4)] show ?case by blast
qed (auto simp: phase_ok_def Win_CloseWatch_def win_request_shutdown_def)

lemma win_reachable_phase:
  assumes "win_reachable lower st"
  shows "phase_ok st"
proof -
  obtain iocp st0 where init: "iocp \<noteq> INVALID_HANDLE_VALUE" "WinFileWatcher_Create (Some iocp, 0)
      \<lparr>os_handles = [], os_reads = [], os_cancelled = []\<rparr> = Inr st0" and steps: "(win_step lower)\<^sup>*\<^sup>* st0 st"
    using assms by (auto simp: win_reachable_def)
  from init have "phase_ok st0"
    by (auto simp: phase_ok_def WinFileWatcher_Create_def WinFileWatcher_new_def)
  with steps show ?thesis by (induction rule: rtranclp_induct) (use phase_ok_step in blast)+
qed

lemma win_exited_empty:
  assumes "win_inv st" and "phase_ok st" and "win_exited st"
  shows "dom (win_heap st) = {}" and "os_handles (win_os st) = [m_iocp st]"
proof -
  show "dom (win_heap st) = {}" using assms by (simp add: win_inv_def own_ok_def phase_ok_def)
  then show "os_handles (win_os st) = [m_iocp st]"
    using assms(1) by (simp add: win_inv_def heap_ok_def)
qed

end
