(* ===== verification/Win_Properties.thy ===== *)
theory Win_Properties
  imports Win_Invariant
begin

text \<open>
  What the Windows watcher promises: the change records it reads, its shutdown, and the
  directory watchers that get no read any more.
\<close>

section \<open>Change records\<close>

text \<open>
  The documented layout of the records: each holds the offset of the next one, zero in the
  last, an action, the length of the name in bytes and the name; between two records there
  may be padding.
\<close>

definition dword_bytes :: "nat \<Rightarrow> 8 word list" where
  "dword_bytes n = [of_nat n, of_nat (n div 256), of_nat (n div 256 div 256), of_nat (n div 256 div 256 div 256)]"

definition wbytes :: "wstring \<Rightarrow> 8 word list" where
  "wbytes ws = concat (map (\<lambda>w. [of_nat (unat w), of_nat (unat w div 256)]) ws)"

definition record_bytes :: "nat \<Rightarrow> nat \<Rightarrow> wstring \<Rightarrow> 8 word list" where
  "record_bytes next_offset action name =
     dword_bytes next_offset @ dword_bytes action @ dword_bytes (2 * length name) @ wbytes name"

fun notify_bytes :: "(nat \<times> wstring \<times> 8 word list) list \<Rightarrow> 8 word list" where
  "notify_bytes [] = []"
| "notify_bytes [(action, name, pad)] = record_bytes 0 action name"
| "notify_bytes ((action, name, pad) # r # rs) =
     record_bytes (12 + 2 * length name + length pad) action name @ pad @ notify_bytes (r # rs)"

text \<open>What the loop looks at: it skips a last record of less than 16 bytes.\<close>

definition reported :: "(nat \<times> wstring \<times> 8 word list) list \<Rightarrow> wstring set" where
  "reported recs =
     (fst \<circ> snd) ` set (if length (fst (snd (last recs))) < 2 then butlast recs else recs)"

definition watched_under :: "(wstring \<Rightarrow> wstring) \<Rightarrow> 'cb WinDirWatcher \<Rightarrow> wstring set \<Rightarrow> WinWatchId set" where
  "watched_under lower dw names =
     {e_id e | e name es. name \<in> names \<and> map_of (dw_watches dw) (ToLowerKey lower name) = Some es \<and> e \<in> set es}"

lemma length_wbytes [simp]: "length (wbytes ws) = 2 * length ws"
  by (induction ws) (simp_all add: wbytes_def)

lemma length_bytes [simp]:
  "length (dword_bytes n) = 4" "length (record_bytes next_offset action name) = 12 + 2 * length name"
  by (simp_all add: record_bytes_def dword_bytes_def)

lemma unat_of_nat_byte: "unat (of_nat n :: 8 word) = n mod 256"
  by (simp add: unat_of_nat)

lemma dword_at_bytes:
  assumes "n < 2 ^ 32" and "p = length pre"
  shows "dword_at (pre @ dword_bytes n @ post) p = n"
proof -
  have "n div 256 div 256 div 256 < 256" using assms(1) by (simp add: div_mult2_eq [symmetric] less_mult_imp_div_less)
  then show ?thesis
    by (simp add: dword_at_def byte_at_def dword_bytes_def nth_append unat_of_nat_byte assms(2))
qed

lemma wchars_at_bytes:
  "p = length pre \<Longrightarrow> wchars_at (pre @ wbytes ws @ post) p (length ws) = ws"
proof (induction ws arbitrary: pre p)
  case (Cons w ws)
  let ?b = "[of_nat (unat w), of_nat (unat w div 256)] :: 8 word list"
  have bytes: "wbytes (w # ws) = ?b @ wbytes ws" by (simp add: wbytes_def)
  have "unat w < 2 ^ LENGTH(16)" by (rule unsigned_less)
  then have "unat w div 256 < 256" by (simp add: less_mult_imp_div_less)
  then have w: "word_of_nat (unat w mod 256 + 256 * (unat w div 256 mod 256)) = w"
    by simp
  let ?buf = "pre @ wbytes (w # ws) @ post"
  have "byte_at ?buf p = unat w mod 256" "byte_at ?buf (p + 1) = unat w div 256 mod 256"
    by (simp_all add: bytes byte_at_def nth_append Cons.prems unat_of_nat_byte unsigned_ucast_eq take_bit_eq_mod)
  moreover have "wchars_at ?buf (p + 2) (length ws) = ws"
    using Cons.IH [of "p + 2" "pre @ ?b"] Cons.prems by (simp only: bytes append_assoc) simp
  ultimately show ?case by (simp only: list.size add_0_right add_Suc_right wchars_at.simps w)
qed simp

lemma record_fields:
  assumes "buf = pre @ record_bytes n action name @ post" and "p = length pre"
    and "n < 2 ^ 32" and "2 * length name < 2 ^ 32"
  shows "NextEntryOffset buf p = n" and "FileNameLength buf p = 2 * length name"
    and "wchars_at buf (p + 12) (length name) = name"
proof -
  show "NextEntryOffset buf p = n"
    using dword_at_bytes [OF assms(3,2)] by (simp add: NextEntryOffset_def assms(1) record_bytes_def)
  show "FileNameLength buf p = 2 * length name"
    using dword_at_bytes [OF assms(4), of "p + 8" "pre @ dword_bytes n @ dword_bytes action"] assms(2)
    by (simp add: FileNameLength_def assms(1) record_bytes_def)
  show "wchars_at buf (p + 12) (length name) = name"
    using wchars_at_bytes [of "p + 12" "pre @ dword_bytes n @ dword_bytes action @ dword_bytes (2 * length name)"] assms(2)
    by (simp add: assms(1) record_bytes_def)
qed

lemma set_dirty_insert [simp]: "set (dirty_insert i dirty) = insert i (set dirty)"
  by (auto simp: dirty_insert_def)

lemma set_collect_entries [simp]:
  "set (fold (\<lambda>e. dirty_insert (e_id e)) es dirty) = e_id ` set es \<union> set dirty"
  by (induction es arbitrary: dirty) auto

lemma set_collect_record:
  assumes "m_buffer dw = pre @ record_bytes n action name @ post" and "p = length pre"
    and "n < 2 ^ 32" and "2 * length name < 2 ^ 32"
  shows "set (collect_record lower dw p dirty) = watched_under lower dw {name} \<union> set dirty"
  using record_fields [OF assms]
  by (auto simp: collect_record_def Let_def watched_under_def split: option.split)

lemma watched_under_Un: "watched_under lower dw (A \<union> B) = watched_under lower dw A \<union> watched_under lower dw B"
  by (auto simp: watched_under_def)

lemma watched_under_insert:
  "watched_under lower dw {} = {}"
  "watched_under lower dw (insert name names) =
     (case map_of (dw_watches dw) (ToLowerKey lower name) of None \<Rightarrow> {} | Some es \<Rightarrow> e_id ` set es)
       \<union> watched_under lower dw names"
  by (auto simp: watched_under_def split: option.split)

lemma notify_bytes_min: "recs \<noteq> [] \<Longrightarrow> 12 \<le> length (notify_bytes recs)"
  by (induction recs rule: notify_bytes.induct) simp_all

lemma reported_Cons:
  "reported ((action, name, pad) # r # rs) = insert name (reported (r # rs))"
  by (auto simp: reported_def)

lemma CollectDirty_loop_records:
  assumes "recs \<noteq> []" and "m_buffer dw = pre @ notify_bytes recs @ post"
    and "p = length pre" and "stop = p + length (notify_bytes recs)"
    and "length (m_buffer dw) < 2 ^ 32"
  shows "\<exists>dirty'. CollectDirty_loop lower dw stop p dirty = Some dirty'
    \<and> set dirty' = watched_under lower dw (reported recs) \<union> set dirty"
  using assms
proof (induction recs arbitrary: pre p dirty rule: notify_bytes.induct)
  case (2 action name pad)
  have len: "length (m_buffer dw) = p + 12 + 2 * length name + length post" using 2 by simp
  note buf = "2.prems"(2) [unfolded notify_bytes.simps]
  have small: "2 * length name < 2 ^ 32" using len "2.prems"(5) by simp
  note rec = record_fields [OF buf "2.prems"(3) _ small] and col = set_collect_record [OF buf "2.prems"(3) _ small]
  show ?case
  proof (cases "length name < 2")
    case True
    with 2 show ?thesis
      by (auto simp: CollectDirty_loop.simps [of lower dw] sizeof_FILE_NOTIFY_INFORMATION_def
          reported_def watched_under_def)
  next
    case False
    then have "reported [(action, name, pad)] = {name}" by (simp add: reported_def)
    with False rec col len 2 show ?thesis
      by (simp add: CollectDirty_loop.simps [of lower dw] sizeof_FILE_NOTIFY_INFORMATION_def)
  qed
next
  case (3 action name pad r rs)
  let ?n = "12 + 2 * length name + length pad"
  have min: "12 \<le> length (notify_bytes (r # rs))" by (rule notify_bytes_min) simp
  have len: "length (m_buffer dw) = p + ?n + length (notify_bytes (r # rs)) + length post" using 3 by simp
  have buf: "m_buffer dw = pre @ record_bytes ?n action name @ pad @ notify_bytes (r # rs) @ post"
    using "3.prems"(2) by simp
  have small: "2 * length name < 2 ^ 32" "?n < 2 ^ 32" using len "3.prems"(5) by simp_all
  note rec = record_fields [OF buf "3.prems"(3) small(2,1)]
    and col = set_collect_record [OF buf "3.prems"(3) small(2,1)]
  let ?d = "collect_record lower dw p dirty"
  obtain dirty' where ih: "CollectDirty_loop lower dw stop (p + ?n) ?d = Some dirty'"
    "set dirty' = watched_under lower dw (reported (r # rs)) \<union> set ?d"
    using "3.IH" [of "pre @ record_bytes ?n action name @ pad" "p + ?n" ?d] 3 buf by auto
  have "CollectDirty_loop lower dw stop p dirty = CollectDirty_loop lower dw stop (p + ?n) ?d"
  proof -
    have "p + 16 \<le> stop" "\<not> length (m_buffer dw) < p + 16"
      "\<not> length (m_buffer dw) < p + 12 + 2 * (2 * length name div 2)"
      using len min "3.prems"(4) by simp_all
    then show ?thesis
      by (subst CollectDirty_loop.simps) (simp add: rec Let_def sizeof_FILE_NOTIFY_INFORMATION_def)
  qed
  with ih col watched_under_Un [of lower dw "{name}" "reported (r # rs)"] show ?case
    by (auto simp: reported_Cons)
qed simp

section \<open>Shutting down\<close>

text \<open>Turns of the loop, until it ends.\<close>

type_synonym turn_input = "gqcs_answer \<times> bool \<times> int \<times> int"

fun win_turns ::
  "(wstring \<Rightarrow> wstring) \<Rightarrow> (WinWatchId list \<Rightarrow> WinWatchId list) \<Rightarrow> turn_input list
     \<Rightarrow> 'cb WinFileWatcher \<Rightarrow> win_fault + 'cb WinFileWatcher" where
  "win_turns lower iter [] st = Inr st"
| "win_turns lower iter ((ans, reissued, now, later) # xs) st =
     (if win_exited st then Inr st
      else case Win_Run_turn lower iter ans reissued now later st of
             Inl fault \<Rightarrow> Inl fault
           | Inr st \<Rightarrow> win_turns lower iter xs st)"

definition completions :: "turn_input list \<Rightarrow> dw_ptr list" where
  "completions xs = List.map_filter (\<lambda>(ans, _). case ans of GqcsIo a res \<Rightarrow> Some a | _ \<Rightarrow> None) xs"

lemma completions_simps [simp]:
  "completions [] = []" "completions ((GqcsIo a res, r) # xs) = a # completions xs"
  "completions ((GqcsWake, r) # xs) = completions xs" "completions ((GqcsFailed, r) # xs) = completions xs"
  by (simp_all add: completions_def map_filter_simps)

lemma win_turns_exited: "win_exited st \<Longrightarrow> win_turns lower iter xs st = Inr st"
  by (cases xs) auto

lemma completion_draining:
  assumes "win_inv st" and "a \<in> set (win_m_draining st)"
  shows "handle_completion lower reissued now a res st =
    Inr (False, win_release a ((completed a res st)\<lparr>win_m_draining := remove1 a (win_m_draining st)\<rparr>))"
proof -
  have "a \<in> dom (win_heap (completed a res st))" using assms by (auto simp: win_inv_def own_ok_def)
  then obtain live where "win_heap (completed a res st) a = Some live" by blast
  with assms(2) show ?thesis by (simp add: handle_completion_def Let_def)
qed

text \<open>
  A thread that was asked to end, all of whose directory watchers have their reads in
  progress: each completion removes one watcher, and without any left the thread ends.
\<close>

definition stopping :: "'cb WinFileWatcher \<Rightarrow> bool" where
  "stopping st \<longleftrightarrow> win_inv st \<and> phase_ok st \<and> \<not> win_exited st \<and> win_m_shutdown st
     \<and> dom (win_heap st) = set (os_reads (win_os st))"

lemma stopping_prepared:
  assumes "stopping st"
  shows "win_inv (prepared st)" "phase_ok (prepared st)" "shuttingDown (prepared st)" "\<not> win_exited (prepared st)"
    "win_m_shutdown (prepared st)" "set (win_m_draining (prepared st)) = set (os_reads (win_os st))"
    "dom (win_heap (prepared st)) = set (os_reads (win_os st))"
proof -
  note prep = prepared_phase [of st]
  show inv: "win_inv (prepared st)"
    using assms by (intro win_inv_begin_shutdown win_inv_DrainPendingUnwatches) (simp add: stopping_def)
  show "phase_ok (prepared st)" "shuttingDown (prepared st)" "\<not> win_exited (prepared st)" "win_m_shutdown (prepared st)"
    and dom: "dom (win_heap (prepared st)) = set (os_reads (win_os st))"
    using assms prep by (simp_all add: stopping_def)
  then have "m_dirWatchers (prepared st) = []" by (simp add: phase_ok_def)
  with inv dom show "set (win_m_draining (prepared st)) = set (os_reads (win_os st))"
    by (simp add: win_inv_def own_ok_def)
qed

lemma stopping_ends:
  assumes "stopping st" and "os_reads (win_os st) = []"
  shows "\<exists>st'. Win_Run_turn lower iter ans reissued now later st = Inr st' \<and> win_exited st'
    \<and> win_inv st' \<and> phase_ok st'"
  using stopping_prepared [OF assms(1)] assms(2)
  by (simp add: Win_Run_turn_def Let_def win_inv_fields phase_ok_def)

lemma stopping_waits:
  assumes "stopping st" and "os_reads (win_os st) \<noteq> []" and "\<forall>a res. ans \<noteq> GqcsIo a res"
  shows "\<exists>st'. Win_Run_turn lower iter ans reissued now later st = Inr st' \<and> stopping st'
    \<and> os_reads (win_os st') = os_reads (win_os st)"
  using stopping_prepared [OF assms(1)] assms(2,3)
  by (cases ans) (auto simp: Win_Run_turn_def Let_def win_inv_fire_if_due phase_ok_def stopping_def)

lemma stopping_completes:
  assumes "stopping st" and "a \<in> set (os_reads (win_os st))"
  shows "\<exists>st'. Win_Run_turn lower iter (GqcsIo a res) reissued now later st = Inr st' \<and> stopping st'
    \<and> set (os_reads (win_os st')) = set (os_reads (win_os st)) - {a}"
proof -
  note prep = stopping_prepared [OF assms(1)]
  let ?st = "win_release a ((completed a res (prepared st))\<lparr>win_m_draining := remove1 a (win_m_draining (prepared st))\<rparr>)"
  have h: "handle_completion lower reissued now a res (prepared st) = Inr (False, ?st)"
    by (rule completion_draining [OF prep(1)]) (simp add: prep(6) assms(2))
  have "win_m_draining (prepared st) \<noteq> []" using prep(6) assms(2) by auto
  then have "Win_Run_turn lower iter (GqcsIo a res) reissued now later st = Inr ?st"
    using h by (simp add: Win_Run_turn_def Let_def)
  moreover have "win_inv ?st" using handle_completion_inv(2) [OF prep(1) _ h] assms(2) by simp
  moreover have "phase_ok ?st" "same_phase (prepared st) ?st"
    using completion_phase(1,2) [OF h prep(2,4)] by simp_all
  moreover have "set (os_reads (win_os ?st)) = set (os_reads (win_os st)) - {a}"
    using assms(1) by (simp add: stopping_def win_inv_def own_ok_def)
  moreover have "dom (win_heap ?st) = set (os_reads (win_os st)) - {a}" using prep(7) by simp
  ultimately show ?thesis using prep(4,5) by (simp add: stopping_def)
qed

lemma stopping_turns:
  assumes "stopping st" and "distinct (completions xs)" and "set (completions xs) = set (os_reads (win_os st))"
  shows "\<exists>st'. win_turns lower iter (xs @ [(GqcsWake, r)]) st = Inr st' \<and> win_exited st'
    \<and> win_inv st' \<and> phase_ok st'"
  using assms
proof (induction xs arbitrary: st)
  case Nil
  obtain reissued now later where r: "r = (reissued, now, later)" by (metis surj_pair)
  have "os_reads (win_os st) = []" "\<not> win_exited st" using Nil by (simp_all add: stopping_def)
  with stopping_ends [OF Nil(1), of lower iter GqcsWake reissued now later] show ?case
    by (auto simp: r)
next
  case (Cons x xs)
  obtain ans reissued now later where x: "x = (ans, reissued, now, later)" by (metis surj_pair)
  have ne: "\<not> win_exited st" using Cons.prems(1) by (simp add: stopping_def)
  show ?case
  proof (cases "os_reads (win_os st) = []")
    case True
    from stopping_ends [OF Cons.prems(1) this, of lower iter ans reissued now later] ne show ?thesis
      by (auto simp: x win_turns_exited)
  next
    case False
    have "\<exists>st'. Win_Run_turn lower iter ans reissued now later st = Inr st' \<and> stopping st'
        \<and> distinct (completions xs) \<and> set (completions xs) = set (os_reads (win_os st'))"
    proof (cases ans)
      case (GqcsIo a res)
      with Cons.prems x have "a \<in> set (os_reads (win_os st))" "set (completions xs) = set (os_reads (win_os st)) - {a}"
        "distinct (completions xs)" by auto
      with stopping_completes [OF Cons.prems(1) this(1), of lower iter res reissued now later] GqcsIo
      show ?thesis by auto
    qed (use stopping_waits [OF Cons.prems(1) False, of ans lower iter reissued now later] Cons.prems x in auto)
    with Cons.IH ne show ?thesis by (auto simp: x)
  qed
qed

section \<open>Deaf watchers\<close>

text \<open>A live directory watcher without a read in progress; it never gets one again.\<close>

definition deaf :: "dw_ptr \<Rightarrow> 'cb WinFileWatcher \<Rightarrow> bool" where
  "deaf a st \<longleftrightarrow> a \<in> dom (win_heap st) \<and> a \<notin> set (os_reads (win_os st))"

lemma Open_reads: "WinDirWatcher_Open opened assoc dir os = (x, os') \<Longrightarrow> os_reads os' = os_reads os"
  by (auto simp: WinDirWatcher_Open_def os_CloseHandle_def Let_def split: if_splits)

lemma WatchFile_frame:
  "Win_WatchFile lower ans cb st = (r, st') \<Longrightarrow>
     dom (win_heap st) - {w_new ans} \<subseteq> dom (win_heap st')
     \<and> set (os_reads (win_os st')) \<subseteq> insert (w_new ans) (set (os_reads (win_os st)))"
  by (clarsimp simp: Win_WatchFile_def Let_def win_register_def IssueRead_def
      split: if_splits option.splits prod.splits sum.splits bool.splits dest!: Open_reads)

lemma deaf_WatchFile:
  assumes "deaf a st" and "win_heap st (w_new ans) = None" and "Win_WatchFile lower ans cb st = (r, st')"
  shows "deaf a st'"
proof -
  have "a \<noteq> w_new ans" using assms(1,2) by (auto simp: deaf_def)
  with WatchFile_frame [OF assms(3)] assms(1) show ?thesis by (auto simp: deaf_def)
qed

lemma deaf_step:
  assumes "win_step lower st st'" and "deaf a st" and "phase_ok st" and "win_inv st"
  shows "deaf a st'"
  using assms
proof (induction rule: win_step.induct)
  case (watch st ans cb r st')
  show ?case by (rule deaf_WatchFile [OF watch.prems(1) watch.hyps(2,3)])
next
  case (turn st iter ans reissued now later st')
  note prep = prepared_phase [OF turn.prems(2)]
  have d: "deaf a (prepared st)" using turn.prems(1) prep(6) by (simp add: deaf_def)
  from turn.hyps(4) show ?case
  proof (cases rule: Win_Run_turn_cases)
    case (io b res go_on st1)
    have "b \<noteq> a" using turn.hyps(3) [OF io(2)] turn.prems(1) by (auto simp: deaf_def)
    with completion_phase(3,5) [OF io(3) prep(1)] prep(4) turn.hyps(1) d have "deaf a st1"
      by (auto simp: deaf_def)
    with io(4) show ?thesis by (simp add: deaf_def)
  qed (use d in \<open>simp_all add: deaf_def\<close>)
qed (simp_all add: deaf_def Win_CloseWatch_def win_request_shutdown_def)

section \<open>Properties\<close>

text \<open>
  The system never completes a read into memory that was freed: in every state the
  watcher can reach, each read in progress belongs to a directory watcher that is still
  alive, so handling its completion, whatever it reports, is no use after free; a draining
  watcher with a read in progress has been cancelled; and the handles open are exactly the
  completion port and one for each live directory watcher.
\<close>

theorem win_reads_owned:
  assumes "win_reachable lower st" and "a \<in> set (os_reads (win_os st))"
  shows "win_heap st a \<noteq> None
    \<and> Win_Run_turn lower iter (GqcsIo a res) reissued now later st \<noteq> Inl UseAfterFree
    \<and> (a \<in> set (win_m_draining st) \<longrightarrow> a \<in> set (os_cancelled (win_os st)))
    \<and> mset (os_handles (win_os st)) =
        add_mset (m_iocp st) (image_mset (dw_handle st) (mset_set (dom (win_heap st))))"
proof -
  note inv = win_reachable_inv [OF assms(1)]
  have "a \<in> dom (win_heap st)" using inv assms(2) unfolding win_inv_def own_ok_def by blast
  then have "win_heap st a \<noteq> None" by auto
  moreover have "Win_Run_turn lower iter (GqcsIo a res) reissued now later st \<noteq> Inl UseAfterFree"
    using Win_Run_turn_inv(1) [OF inv] assms(2) by blast
  ultimately show ?thesis using inv assms(2) by (simp add: win_inv_def own_ok_def heap_ok_def)
qed

lemma sample_win0_reachable: "win_reachable sample_lower sample_win0"
  unfolding win_reachable_def
  by (rule exI [of _ 4]) (simp add: sample_win0_def WinFileWatcher_Create_def INVALID_HANDLE_VALUE_def)

lemma win_reachable_step: "win_reachable lower st \<Longrightarrow> win_step lower st st' \<Longrightarrow> win_reachable lower st'"
  unfolding win_reachable_def by (meson rtranclp.rtrancl_into_rtrancl)

lemma sample_win_reachable: "win_reachable sample_lower sample_win"
proof (rule win_reachable_step [OF sample_win0_reachable])
  show "win_step sample_lower sample_win0 sample_win"
    unfolding sample_win_def
    by (rule win_step.watch [where ans = sample_win_answers and cb = "()"])
      (simp_all add: sample_win0_def WinFileWatcher_new_def prod_eq_iff)
qed

theorem win_reads_owned_witness:
  "win_heap sample_win 1 \<noteq> None
   \<and> Win_Run_turn sample_lower id (GqcsIo 1 (IoError 5)) True 0 0 sample_win \<noteq> Inl UseAfterFree
   \<and> {#12, 4#} = add_mset (m_iocp sample_win)
       (image_mset (dw_handle sample_win) (mset_set (dom (win_heap sample_win))))"
  using win_reads_owned [OF sample_win_reachable, of 1 id "IoError 5" True 0 0] sample_win_fields(1,2)
  by simp

text \<open>
  C20. Shutting down ends: if every directory watcher has its read in progress when the
  destructor asks the thread to end, the thread ends as soon as these reads have completed,
  in whatever order, with whatever results and with any other wake-ups in between; then no
  directory watcher is left, and closing the port leaves no handle open.
\<close>

theorem win_shutdown_completes:
  assumes "win_reachable lower st" and "\<not> win_exited st"
    and "dom (win_heap st) = set (os_reads (win_os st))"
    and "distinct (completions xs)" and "set (completions xs) = set (os_reads (win_os st))"
  shows "\<exists>st'. win_turns lower iter (xs @ [(GqcsWake, r)]) (win_request_shutdown st) = Inr st' \<and> win_exited st'
    \<and> dom (win_heap st') = {} \<and> os_handles (win_os (win_after_join st')) = []"
proof -
  have "stopping (win_request_shutdown st)"
    using win_reachable_inv [OF assms(1)] win_reachable_phase [OF assms(1)] assms(2,3)
    by (simp add: stopping_def win_request_shutdown_def win_inv_fields phase_ok_def)
  then obtain st' where st': "win_turns lower iter (xs @ [(GqcsWake, r)]) (win_request_shutdown st) = Inr st'"
    "win_exited st'" "win_inv st'" "phase_ok st'"
    using stopping_turns [of "win_request_shutdown st" xs lower iter r] assms(4,5)
    by (auto simp: win_request_shutdown_def)
  from win_exited_empty [OF st'(3,4,2)] st' show ?thesis
    by (auto simp: win_after_join_def os_CloseHandle_def phase_ok_def)
qed

lemma sample_win_dom: "dom (win_heap sample_win) = {1}"
  using win_reachable_inv [OF sample_win_reachable] sample_win_fields(3,4)
  by (simp add: win_inv_def own_ok_def)

theorem win_shutdown_completes_witness:
  "\<exists>st'. win_turns sample_lower id [(GqcsFailed, True, 0, 0), (GqcsIo 1 (IoError 995), True, 0, 0), (GqcsWake, True, 0, 0)]
      (win_request_shutdown sample_win) = Inr st' \<and> win_exited st' \<and> os_handles (win_os (win_after_join st')) = []"
  using win_shutdown_completes [OF sample_win_reachable,
      of "[(GqcsFailed, True, 0, 0), (GqcsIo 1 (IoError 995), True, 0, 0)]" id "(True, 0, 0)"]
    sample_win_fields(1,6) sample_win_dom
  by auto

text \<open>
  C37. A failed read is never repeated: if the read of an active directory watcher completes
  with an error while no watch is being closed, the watcher stays without a read for ever,
  whatever happens afterwards, and because it can then never be removed the thread never
  ends, so that the destructor waits for ever.
\<close>

theorem win_failed_read_hangs:
  assumes "win_reachable lower st" and "\<not> win_exited st" and "\<not> win_m_shutdown st"
    and "win_m_pendingUnwatches st = []" and "(k, a) \<in> set (m_dirWatchers st)" and "a \<in> set (os_reads (win_os st))"
    and "Win_Run_turn lower iter (GqcsIo a (IoError e)) reissued now later st = Inr st'"
    and "(win_step lower)\<^sup>*\<^sup>* st' st''"
  shows "a \<notin> set (os_reads (win_os st'')) \<and> win_heap st'' a \<noteq> None \<and> \<not> win_exited st''"
proof -
  note inv = win_reachable_inv [OF assms(1)] and phase = win_reachable_phase [OF assms(1)]
  have prep: "prepared st = st"
    using assms(3,4) by (simp add: DrainPendingUnwatches_def begin_shutdown_def)
  have "\<not> shuttingDown st" using phase assms(3) by (simp add: phase_ok_def)
  moreover have act: "a \<in> snd ` set (m_dirWatchers st)" using assms(5) by force
  moreover have "a \<notin> set (win_m_draining st)"
    using inv act by (auto simp: win_inv_def own_ok_def)
  moreover obtain live where "win_heap (completed a (IoError e) st) a = Some live"
    using completed_inv(3) [OF inv assms(6)] by blast
  ultimately have st': "st' = completed a (IoError e) st"
    using assms(7) by (simp add: Win_Run_turn_def prep handle_completion_def Let_def)
  have "a \<in> dom (win_heap st)" using inv assms(6) unfolding win_inv_def own_ok_def by blast
  then have "deaf a st'"
    using completed_inv(2) [OF inv assms(6), of "IoError e"] by (simp add: deaf_def st')
  moreover have "win_inv st'" using completed_inv(1) [OF inv assms(6)] by (simp add: st')
  moreover have "phase_ok st'" using phase by (simp add: st' phase_ok_def)
  ultimately have start: "deaf a st' \<and> win_inv st' \<and> phase_ok st'" by blast
  from assms(8) have "deaf a st'' \<and> win_inv st'' \<and> phase_ok st''"
    by (induction rule: rtranclp_induct) (use start in \<open>auto dest: deaf_step win_step_inv phase_ok_step\<close>)
  then show ?thesis using win_exited_empty(1) [of st''] by (auto simp: deaf_def)
qed

theorem win_failed_read_hangs_witness:
  "\<exists>st'. Win_Run_turn sample_lower id (GqcsIo 1 (IoError 5)) True 0 0 sample_win = Inr st'
     \<and> \<not> win_exited (win_request_shutdown st') \<and> win_heap (win_request_shutdown st') 1 \<noteq> None"
proof -
  have "prepared sample_win = sample_win"
    using sample_win_fields by (simp add: DrainPendingUnwatches_def begin_shutdown_def)
  moreover obtain live where "win_heap (completed 1 (IoError 5) sample_win) 1 = Some live"
    using completed_inv(3) [OF win_reachable_inv [OF sample_win_reachable], of 1 "IoError 5"] sample_win_fields(1) by auto
  ultimately obtain st' where turn: "Win_Run_turn sample_lower id (GqcsIo 1 (IoError 5)) True 0 0 sample_win = Inr st'"
    using sample_win_fields by (simp add: Win_Run_turn_def handle_completion_def Let_def)
  have "(win_step sample_lower)\<^sup>*\<^sup>* st' (win_request_shutdown st')" by (simp add: win_step.shutdown r_into_rtranclp)
  from win_failed_read_hangs [OF sample_win_reachable _ _ _ _ _ turn this, of "[99, 58, 92, 98]"]
    sample_win_fields turn show ?thesis by simp
qed

text \<open>
  C22. Change records are read exactly: if the system has filled the buffer with records in
  its documented layout, with any padding, every watch on a reported name, up to letter
  case, becomes dirty and no other; only a last record whose name has a single character is
  overlooked, because the record is shorter than the structure. An empty transfer, which
  signals an overflow, makes every watch of the directory dirty.
\<close>

theorem collect_dirty_exact:
  assumes "recs \<noteq> []" and "m_buffer dw = notify_bytes recs @ rest" and "length (m_buffer dw) = kBufferBytes"
  shows "(\<exists>dirty'. CollectDirty lower (length (notify_bytes recs)) dw dirty = Some dirty'
      \<and> set dirty' = watched_under lower dw (reported recs) \<union> set dirty)
    \<and> (\<exists>dirty'. CollectDirty lower 0 dw dirty = Some dirty'
      \<and> set dirty' = e_id ` (\<Union>(key, es) \<in> set (dw_watches dw). set es) \<union> set dirty)"
proof
  have "notify_bytes recs \<noteq> []" using notify_bytes_min [OF assms(1)] by auto
  then show "\<exists>dirty'. CollectDirty lower (length (notify_bytes recs)) dw dirty = Some dirty'
      \<and> set dirty' = watched_under lower dw (reported recs) \<union> set dirty"
    using CollectDirty_loop_records [OF assms(1), of dw "[]" rest 0 "length (notify_bytes recs)" lower dirty]
      assms(2,3) by (simp add: CollectDirty_def kBufferBytes_def)
  have "set (fold (\<lambda>(_, vec) dirty. fold (\<lambda>e. dirty_insert (e_id e)) vec dirty) ws dirty)
      = e_id ` (\<Union>(key, es) \<in> set ws. set es) \<union> set dirty" for ws :: "(wstring \<times> 'a Entry list) list"
    by (induction ws arbitrary: dirty) auto
  then show "\<exists>dirty'. CollectDirty lower 0 dw dirty = Some dirty'
      \<and> set dirty' = e_id ` (\<Union>(key, es) \<in> set (dw_watches dw). set es) \<union> set dirty"
    by (simp add: CollectDirty_def CollectAllDirty_def)
qed

definition sample_records :: "(nat \<times> wstring \<times> 8 word list) list" where
  "sample_records = [(3, [65, 65], []), (1, [66], [0, 0]), (3, [66], [])]"

definition sample_dir :: "unit WinDirWatcher" where
  "sample_dir = \<lparr>m_dirHandle = 12, m_dir = [], m_buffer = notify_bytes sample_records @ replicate (kBufferBytes - 46) 0,
     dw_watches = [([97, 97], [\<lparr>e_id = 1, reportPath = [], e_callback = ()\<rparr>])]\<rparr>"

theorem collect_dirty_exact_witness:
  "\<exists>dirty'. CollectDirty sample_lower (length (notify_bytes sample_records)) sample_dir [] = Some dirty'
     \<and> set dirty' = {1}"
proof -
  have buf: "sample_records \<noteq> []" "m_buffer sample_dir = notify_bytes sample_records @ replicate (kBufferBytes - 46) 0"
    "length (m_buffer sample_dir) = kBufferBytes"
    by (simp_all add: sample_records_def sample_dir_def kBufferBytes_def)
  have "reported sample_records = {[65, 65], [66]}" by (simp add: reported_def sample_records_def)
  moreover have "watched_under sample_lower sample_dir {[65, 65], [66]} = {1}"
    by (simp add: watched_under_insert sample_dir_def ToLowerKey_def sample_lower_def)
  ultimately show ?thesis
    using collect_dirty_exact [OF buf, of sample_lower "[]"] by simp
qed

end
