(* ===== verification/File_Watchers.thy ===== *)
theory File_Watchers
  imports Kqueue_Watcher Win_Watcher
begin

text \<open>
  The interface \<open>IFileWatcher\<close> (\<open>util/IFileWatcher.h\<close>) as the rest of the program sees it: a
  set of watches. A request adds a new watch or fails and adds nothing; closing a watch takes
  effect when the watcher's thread next handles the closed ones. The locale states this
  contract over the operations, with the number of identifiers that are left as a budget, and
  proves that any sequence of calls does to the watcher what it does to the abstract set. The
  kqueue and the Windows watcher both implement it.
\<close>

section \<open>Sequences of calls\<close>

datatype ('req, 'id) fw_call = CallWatch 'req | CallClose 'id | ThreadRuns

text \<open>The calls on a watcher, with the results of the requests.\<close>

fun fw_run ::
  "('req \<Rightarrow> 'st \<Rightarrow> 'id status_or \<times> 'st) \<Rightarrow> ('id \<Rightarrow> 'st \<Rightarrow> 'st) \<Rightarrow> ('st \<Rightarrow> 'st)
     \<Rightarrow> ('req, 'id) fw_call list \<Rightarrow> 'st \<Rightarrow> 'id status_or list \<times> 'st" where
  "fw_run watch close_watch settle [] st = ([], st)"
| "fw_run watch close_watch settle (CallWatch req # cs) st =
     (case watch req st of (r, st) \<Rightarrow> apfst (Cons r) (fw_run watch close_watch settle cs st))"
| "fw_run watch close_watch settle (CallClose i # cs) st = fw_run watch close_watch settle cs (close_watch i st)"
| "fw_run watch close_watch settle (ThreadRuns # cs) st = fw_run watch close_watch settle cs (settle st)"

text \<open>The same calls on a set of watches and the set of those closed but not yet removed;
  \<open>None\<close> when a result is not allowed, because the identifier is in use.\<close>

fun set_run ::
  "('req, 'id) fw_call list \<Rightarrow> 'id status_or list \<Rightarrow> 'id set \<times> 'id set \<Rightarrow> ('id set \<times> 'id set) option" where
  "set_run [] [] s = Some s"
| "set_run (CallWatch req # cs) (Inl e # rs) s = set_run cs rs s"
| "set_run (CallWatch req # cs) (Inr i # rs) (ids, closed) =
     (if i \<in> ids then None else set_run cs rs (insert i ids, closed))"
| "set_run (CallClose i # cs) rs (ids, closed) = set_run cs rs (ids, insert i closed)"
| "set_run (ThreadRuns # cs) rs (ids, closed) = set_run cs rs (ids - closed, {})"
| "set_run _ _ _ = None"

section \<open>The contract\<close>

locale file_watcher =
  fixes watch :: "'req \<Rightarrow> 'st \<Rightarrow> 'id status_or \<times> 'st"
    and close_watch :: "'id \<Rightarrow> 'st \<Rightarrow> 'st"
    and settle :: "'st \<Rightarrow> 'st"
    and ids :: "'st \<Rightarrow> 'id set"
    and closed :: "'st \<Rightarrow> 'id set"
    and invar :: "nat \<Rightarrow> 'st \<Rightarrow> bool"
  assumes watch_fails: "invar (Suc n) st \<Longrightarrow> watch req st = (Inl e, st') \<Longrightarrow> ids st' = ids st"
    and watch_adds: "invar (Suc n) st \<Longrightarrow> watch req st = (Inr i, st') \<Longrightarrow> i \<notin> ids st \<and> ids st' = insert i (ids st)"
    and watch_closed: "watch req st = (r, st') \<Longrightarrow> closed st' = closed st"
    and watch_invar: "invar (Suc n) st \<Longrightarrow> watch req st = (r, st') \<Longrightarrow> invar n st'"
    and close_ids: "ids (close_watch i st) = ids st"
    and close_closed: "closed (close_watch i st) = insert i (closed st)"
    and close_invar: "invar n st \<Longrightarrow> invar n (close_watch i st)"
    and settle_ids: "ids (settle st) = ids st - closed st"
    and settle_closed: "closed (settle st) = {}"
    and settle_invar: "invar n st \<Longrightarrow> invar n (settle st)"
    and invar_less: "invar (Suc n) st \<Longrightarrow> invar n st"
begin

theorem run_refines:
  "invar (length cs) st \<Longrightarrow> fw_run watch close_watch settle cs st = (rs, st') \<Longrightarrow>
     set_run cs rs (ids st, closed st) = Some (ids st', closed st')"
proof (induction cs arbitrary: st rs)
  case (Cons c cs)
  show ?case
  proof (cases c)
    case (CallWatch req)
    obtain r st1 where w: "watch req st = (r, st1)" by (metis surj_pair)
    obtain rs1 where run: "fw_run watch close_watch settle cs st1 = (rs1, st')" and rs: "rs = r # rs1"
      using Cons.prems(2) w CallWatch by (cases "fw_run watch close_watch settle cs st1") auto
    have inv: "invar (Suc (length cs)) st" using Cons.prems by simp
    from Cons.IH [OF watch_invar [OF inv w] run] w show ?thesis
      by (cases r) (auto simp: CallWatch rs watch_closed [OF w] dest: watch_fails [OF inv] watch_adds [OF inv])
  qed (use Cons.IH [OF close_invar] Cons.IH [OF settle_invar] Cons.prems invar_less [of "length cs" st] in
      \<open>simp_all add: close_ids close_closed settle_ids settle_closed\<close>)
qed simp

end

section \<open>The kqueue watcher\<close>

definition kq_watch ::
  "fs_answers \<times> 'cb \<Rightarrow> 'cb KqueueFileWatcher \<Rightarrow> WatchId status_or \<times> 'cb KqueueFileWatcher" where
  "kq_watch req st = apfst (map_sum id h_id) (WatchFile (fst req) (snd req) st)"

definition kq_ids :: "'cb KqueueFileWatcher \<Rightarrow> WatchId set" where
  "kq_ids st = fst ` set (m_watches st)"

definition kq_closed :: "'cb KqueueFileWatcher \<Rightarrow> WatchId set" where
  "kq_closed st = set (m_pendingUnwatches st)"

definition kq_invar :: "nat \<Rightarrow> 'cb KqueueFileWatcher \<Rightarrow> bool" where
  "kq_invar budget st \<longleftrightarrow> (\<exists>n. watches_inv n st \<and> n + budget + 1 < 2 ^ 64)"

lemma kq_ids_unwatch_one: "kq_ids (unwatch_one i st) = kq_ids st - {i}"
proof (cases "map_of (m_watches st) i")
  case None
  moreover from None have "i \<notin> kq_ids st" by (simp add: kq_ids_def map_of_eq_None_iff)
  ultimately show ?thesis by (simp add: unwatch_one_def)
qed (auto simp: unwatch_one_def kq_ids_def AList.delete_eq split: prod.split)

lemma kq_ids_handle_unwatches: "kq_ids (handle_unwatches st) = kq_ids st - kq_closed st"
proof -
  have "kq_ids (fold unwatch_one is st) = kq_ids st - set is" for "is"
    by (induction "is" arbitrary: st) (auto simp: kq_ids_unwatch_one)
  then show ?thesis by (simp add: handle_unwatches_def kq_ids_def kq_closed_def)
qed

lemma WatchFile_pending: "WatchFile ans cb st = (r, st') \<Longrightarrow> m_pendingUnwatches st' = m_pendingUnwatches st"
  by (auto simp: WatchFile_def Let_def split: if_splits prod.splits bool.splits)

lemma kq_watch_cases:
  assumes "kq_invar (Suc budget) st" and "kq_watch req st = (r, st')"
  shows "kq_invar budget st'"
    and "case r of Inl e \<Rightarrow> kq_ids st' = kq_ids st | Inr i \<Rightarrow> i \<notin> kq_ids st \<and> kq_ids st' = insert i (kq_ids st)"
proof -
  obtain n where inv: "watches_inv n st" and n: "n + budget + 2 < 2 ^ 64" using assms(1) by (auto simp: kq_invar_def)
  then have bound: "n + 2 < 2 ^ 64" by simp
  obtain h where call: "WatchFile (fst req) (snd req) st = (h, st')" and r: "r = map_sum id h_id h"
    using assms(2) by (cases "WatchFile (fst req) (snd req) st") (simp add: kq_watch_def)
  have "watches_inv n st' \<or> watches_inv (n + 1) st'"
    using WatchFile_inv(1) [OF inv bound call] by (auto split: if_splits)
  then obtain m where "watches_inv m st'" "m \<le> n + 1" by auto
  with n show "kq_invar budget st'" by (auto simp: kq_invar_def)
  from inv bound call show "case r of Inl e \<Rightarrow> kq_ids st' = kq_ids st | Inr i \<Rightarrow> i \<notin> kq_ids st \<and> kq_ids st' = insert i (kq_ids st)"
    by (cases rule: WatchFile_cases) (auto simp: r kq_ids_def)
qed

lemma kq_watch_closed: "kq_watch req st = (r, st') \<Longrightarrow> kq_closed st' = kq_closed st"
  by (cases "WatchFile (fst req) (snd req) st") (auto simp: kq_watch_def kq_closed_def dest: WatchFile_pending)

lemma kq_invar_keep:
  assumes "kq_invar n st"
  shows "kq_invar n (CloseWatch i st)" and "kq_invar n (handle_unwatches st)"
  using assms by (simp add: kq_invar_def watches_inv_def CloseWatch_def)
    (use assms watches_inv_handle_unwatches in \<open>auto simp: kq_invar_def\<close>)

interpretation kq: file_watcher kq_watch CloseWatch handle_unwatches kq_ids kq_closed kq_invar
proof
  fix n req e i r and st st' :: "'a KqueueFileWatcher"
  show "kq_closed st' = kq_closed st" if "kq_watch req st = (r, st')" using that by (rule kq_watch_closed)
  show "kq_ids (CloseWatch i st) = kq_ids st" "kq_closed (CloseWatch i st) = insert i (kq_closed st)"
    by (simp_all add: kq_ids_def kq_closed_def CloseWatch_def)
  show "kq_ids (handle_unwatches st) = kq_ids st - kq_closed st" by (rule kq_ids_handle_unwatches)
  show "kq_closed (handle_unwatches st) = {}" by (simp add: kq_closed_def handle_unwatches_def)
  show "kq_invar n (CloseWatch i st)" "kq_invar n (handle_unwatches st)" if "kq_invar n st"
    using that by (rule kq_invar_keep)+
  assume inv: "kq_invar (Suc n) st"
  then show "kq_invar n st" by (auto simp: kq_invar_def)
  show "kq_invar n st'" if "kq_watch req st = (r, st')" using inv that by (rule kq_watch_cases(1))
  show "kq_ids st' = kq_ids st" if "kq_watch req st = (Inl e, st')" using kq_watch_cases(2) [OF inv that] by simp
  show "i \<notin> kq_ids st \<and> kq_ids st' = insert i (kq_ids st)" if "kq_watch req st = (Inr i, st')"
    using kq_watch_cases(2) [OF inv that] by simp
qed

section \<open>The Windows watcher\<close>

definition win_watch ::
  "(wstring \<Rightarrow> wstring) \<Rightarrow> win_answers \<times> 'cb \<Rightarrow> 'cb WinFileWatcher \<Rightarrow> WinWatchId status_or \<times> 'cb WinFileWatcher" where
  "win_watch lower req st = apfst (map_sum id wh_id) (Win_WatchFile lower (fst req) (snd req) st)"

definition win_ids :: "'cb WinFileWatcher \<Rightarrow> WinWatchId set" where
  "win_ids st = fst ` set (m_watchLocations st)"

definition win_closed :: "'cb WinFileWatcher \<Rightarrow> WinWatchId set" where
  "win_closed st = set (win_m_pendingUnwatches st)"

definition win_invar :: "nat \<Rightarrow> 'cb WinFileWatcher \<Rightarrow> bool" where
  "win_invar budget st \<longleftrightarrow>
     (\<exists>n. win_m_nextWatchId st = of_nat (n + 1) \<and> n + budget + 1 < 2 ^ 64
        \<and> (\<forall>i \<in> win_ids st. \<exists>m. 0 < m \<and> m \<le> n \<and> i = of_nat m))"

lemma keys_delete: "fst ` set (AList.delete i m) = fst ` set m - {i}"
  by (auto simp: AList.delete_eq image_iff)

lemma keys_lhm_emplace: "fst ` set (lhm_emplace i v m) = insert i (fst ` set m)"
  by (force simp: lhm_emplace_def dest: map_of_SomeD split: option.split)

lemma win_fields_frame [simp]:
  "m_watchLocations (win_release a st) = m_watchLocations st"
  "win_m_pendingUnwatches (win_release a st) = win_m_pendingUnwatches st"
  "win_m_nextWatchId (win_release a st) = win_m_nextWatchId st"
  "m_watchLocations (upd_dw a f st) = m_watchLocations st"
  "win_m_pendingUnwatches (upd_dw a f st) = win_m_pendingUnwatches st"
  "win_m_nextWatchId (upd_dw a f st) = win_m_nextWatchId st"
  "m_watchLocations (win_cancel a st) = m_watchLocations st"
  "win_m_pendingUnwatches (win_cancel a st) = win_m_pendingUnwatches st"
  "win_m_nextWatchId (win_cancel a st) = win_m_nextWatchId st"
  by (simp_all add: win_release_def upd_dw_def win_cancel_def split: option.split)

lemma Win_WatchFile_locations:
  assumes "Win_WatchFile lower ans cb st = (r, st')"
  shows "win_m_pendingUnwatches st' = win_m_pendingUnwatches st"
    and "win_m_nextWatchId st' = win_m_nextWatchId st \<or> win_m_nextWatchId st' = win_m_nextWatchId st + 1"
    and "r = Inl e \<Longrightarrow> m_watchLocations st' = m_watchLocations st
      \<or> (\<exists>loc. m_watchLocations st' =
            AList.delete (win_m_nextWatchId st) (lhm_emplace (win_m_nextWatchId st) loc (m_watchLocations st)))"
    and "r = Inr h \<Longrightarrow> wh_id h = win_m_nextWatchId st \<and> win_m_nextWatchId st' = win_m_nextWatchId st + 1
      \<and> (\<exists>loc. m_watchLocations st' = lhm_emplace (win_m_nextWatchId st) loc (m_watchLocations st))"
  using assms unfolding Win_WatchFile_def Let_def win_register_def
  by (force split: if_splits option.splits prod.splits sum.splits bool.splits)+

lemma win_drain_ids:
  "win_ids (DrainPendingUnwatches st) = win_ids st - win_closed st"
  "win_m_nextWatchId (DrainPendingUnwatches st) = win_m_nextWatchId st"
  "win_closed (DrainPendingUnwatches st) = {}"
proof -
  have one: "win_ids (snd (drain_one i (C, st))) = win_ids st - {i}
      \<and> win_m_nextWatchId (snd (drain_one i (C, st))) = win_m_nextWatchId st" for i C and st :: "'a WinFileWatcher"
  proof (cases "map_of (m_watchLocations st) i")
    case None
    then have "i \<notin> win_ids st" by (simp add: win_ids_def map_of_eq_None_iff)
    with None show ?thesis by (simp add: drain_one_def)
  qed (simp add: drain_one_def win_ids_def keys_delete Let_def split: prod.split option.split)
  have folded: "win_ids (snd (fold drain_one is (C, st))) = win_ids st - set is
      \<and> win_m_nextWatchId (snd (fold drain_one is (C, st))) = win_m_nextWatchId st"
    for "is" C and st :: "'a WinFileWatcher"
  proof (induction "is" arbitrary: C st)
    case (Cons i "is")
    obtain C1 st1 where d: "drain_one i (C, st) = (C1, st1)" by (metis surj_pair)
    with Cons.IH [of C1 st1] one [of i C st] show ?case by auto
  qed simp
  have "m_watchLocations (fold win_cancel as st) = m_watchLocations st
      \<and> win_m_pendingUnwatches (fold win_cancel as st) = win_m_pendingUnwatches st
      \<and> win_m_nextWatchId (fold win_cancel as st) = win_m_nextWatchId st" for as and st :: "'a WinFileWatcher"
    by (induction as arbitrary: st) simp_all
  moreover obtain C st1 where "fold drain_one (win_m_pendingUnwatches st) ([], st) = (C, st1)" by (metis surj_pair)
  ultimately show "win_ids (DrainPendingUnwatches st) = win_ids st - win_closed st"
    "win_m_nextWatchId (DrainPendingUnwatches st) = win_m_nextWatchId st"
    "win_closed (DrainPendingUnwatches st) = {}"
    using folded [of "win_m_pendingUnwatches st" "[]" st]
    by (simp_all add: DrainPendingUnwatches_def win_ids_def win_closed_def)
qed

lemma win_watch_unfold:
  assumes "win_watch lower req st = (r, st')"
  obtains h where "Win_WatchFile lower (fst req) (snd req) st = (h, st')" "r = map_sum id wh_id h"
  using assms by (cases "Win_WatchFile lower (fst req) (snd req) st") (simp add: win_watch_def)

lemma win_next_unused:
  assumes "win_invar (Suc n) st"
  shows "win_m_nextWatchId st \<notin> win_ids st"
proof
  assume "win_m_nextWatchId st \<in> win_ids st"
  with assms obtain k m where "k + Suc n + 1 < 2 ^ 64" "m \<le> k" "(of_nat (k + 1) :: 64 word) = of_nat m"
    by (fastforce simp: win_invar_def)
  then show False by (simp add: word_of_nat_eq_iff take_bit_nat_eq_self del: of_nat_Suc of_nat_add)
qed

lemma win_watch_ids:
  assumes inv: "win_invar (Suc n) st" and "win_watch lower req st = (r, st')"
  shows "case r of Inl e \<Rightarrow> win_ids st' = win_ids st
    | Inr i \<Rightarrow> i = win_m_nextWatchId st \<and> win_m_nextWatchId st' = win_m_nextWatchId st + 1
        \<and> win_ids st' = insert i (win_ids st)"
proof -
  obtain h where call: "Win_WatchFile lower (fst req) (snd req) st = (h, st')" and r: "r = map_sum id wh_id h"
    using assms(2) by (rule win_watch_unfold)
  show ?thesis
  proof (cases h)
    case (Inl e)
    from Win_WatchFile_locations(3) [OF call Inl] win_next_unused [OF inv] have "win_ids st' = win_ids st"
      unfolding win_ids_def by (elim disjE exE) (simp_all add: keys_delete keys_lhm_emplace)
    with Inl show ?thesis by (simp add: r)
  next
    case (Inr w)
    from Win_WatchFile_locations(4) [OF call Inr] Inr show ?thesis
      unfolding win_ids_def by (elim conjE exE) (simp add: r keys_lhm_emplace)
  qed
qed

lemma win_watch_invar:
  assumes inv: "win_invar (Suc n) st" and w: "win_watch lower req st = (r, st')"
  shows "win_invar n st'"
proof -
  obtain k where k: "win_m_nextWatchId st = of_nat (k + 1)" "k + Suc n + 1 < 2 ^ 64"
    and issued: "\<forall>i \<in> win_ids st. \<exists>m. 0 < m \<and> m \<le> k \<and> i = of_nat m"
    using inv by (auto simp: win_invar_def)
  obtain h where call: "Win_WatchFile lower (fst req) (snd req) st = (h, st')" using w by (rule win_watch_unfold)
  let ?added = "win_m_nextWatchId st' = of_nat (k + 2) \<and> win_ids st' = insert (of_nat (k + 1)) (win_ids st)"
  have "win_ids st' = win_ids st \<or> ?added"
    using win_watch_ids [OF inv w] k(1) by (auto simp: add.commute split: sum.splits)
  moreover have "win_m_nextWatchId st' = of_nat (k + 1) \<or> win_m_nextWatchId st' = of_nat (k + 2)"
    using Win_WatchFile_locations(2) [OF call] k(1) by (auto simp: add.commute)
  moreover have "\<exists>m. 0 < m \<and> m \<le> k + 1 \<and> i = of_nat m" if "i \<in> insert (of_nat (k + 1)) (win_ids st)" for i
    using that issued by (force intro: exI [of _ "k + 1"])
  ultimately show ?thesis
    using k(2) issued unfolding win_invar_def
    by (elim disjE) (rule exI [of _ k], simp, (rule exI [of _ "k + 1"], simp)+)
qed

interpretation win: file_watcher "win_watch lower" Win_CloseWatch DrainPendingUnwatches win_ids win_closed win_invar
  for lower
proof
  fix n req e i r and st st' :: "'a WinFileWatcher"
  show "win_closed st' = win_closed st" if "win_watch lower req st = (r, st')"
    using that by (auto simp: win_closed_def dest: Win_WatchFile_locations(1) elim!: win_watch_unfold)
  show "win_ids (Win_CloseWatch i st) = win_ids st" "win_closed (Win_CloseWatch i st) = insert i (win_closed st)"
    by (simp_all add: win_ids_def win_closed_def Win_CloseWatch_def)
  show "win_ids (DrainPendingUnwatches st) = win_ids st - win_closed st" "win_closed (DrainPendingUnwatches st) = {}"
    by (rule win_drain_ids)+
  show "win_invar n (Win_CloseWatch i st)" if "win_invar n st"
    using that by (simp add: win_invar_def win_ids_def Win_CloseWatch_def)
  show "win_invar n (DrainPendingUnwatches st)" if "win_invar n st"
    using that unfolding win_invar_def win_drain_ids by blast
  assume inv: "win_invar (Suc n) st"
  then show "win_invar n st" by (auto simp: win_invar_def)
  show "win_invar n st'" if "win_watch lower req st = (r, st')" using inv that by (rule win_watch_invar)
  show "win_ids st' = win_ids st" if "win_watch lower req st = (Inl e, st')" using win_watch_ids [OF inv that] by simp
  show "i \<notin> win_ids st \<and> win_ids st' = insert i (win_ids st)" if "win_watch lower req st = (Inr i, st')"
    using win_watch_ids [OF inv that] win_next_unused [OF inv] by simp
qed

section \<open>Property\<close>

text \<open>
  C8. Both watchers are sets of watches: from the state in which \<open>Create\<close> leaves them, any
  sequence of less than \<open>2\<^sup>6\<^sup>4 - 1\<close> watch requests, closed watches and runs of the thread does
  to the registered watches exactly what it does to an abstract set: a failed request adds
  nothing, a successful one adds an identifier that is not in use, and closed watches
  disappear when the thread next runs.
\<close>

theorem watchers_refine_set:
  assumes "KqueueFileWatcher_Create kq wake fresh_kernel = (Inr st, k)" and "length cs + 1 < 2 ^ 64"
    and "fw_run kq_watch CloseWatch handle_unwatches cs st = (rs, st')"
    and "WinFileWatcher_Create port os = Inr wt" and "length ds + 1 < 2 ^ 64"
    and "fw_run (win_watch lower) Win_CloseWatch DrainPendingUnwatches ds wt = (qs, wt')"
  shows "set_run cs rs ({}, {}) = Some (kq_ids st', kq_closed st')
    \<and> set_run ds qs ({}, {}) = Some (win_ids wt', win_closed wt')"
proof
  have "kq_invar (length cs) st" using watches_inv_new [OF assms(1)] assms(2) by (auto simp: kq_invar_def)
  moreover have "kq_ids st = {}" "kq_closed st = {}"
    using assms(1) by (auto simp: KqueueFileWatcher_Create_def KqueueFileWatcher_new_def Let_def kq_ids_def kq_closed_def
        split: if_splits option.splits)
  ultimately show "set_run cs rs ({}, {}) = Some (kq_ids st', kq_closed st')"
    using kq.run_refines [OF _ assms(3)] by simp
  have "win_ids wt = {}" "win_closed wt = {}" "win_m_nextWatchId wt = 1"
    using assms(4) by (auto simp: WinFileWatcher_Create_def WinFileWatcher_new_def win_ids_def win_closed_def
        split: option.splits)
  moreover from this have "win_invar (length ds) wt" using assms(5) by (auto simp: win_invar_def intro!: exI [of _ 0])
  ultimately show "set_run ds qs ({}, {}) = Some (win_ids wt', win_closed wt')"
    using win.run_refines [OF _ assms(6)] by simp
qed

definition sample_calls :: "(fs_answers \<times> unit, WatchId) fw_call list" where
  "sample_calls = [CallWatch (sample_answers, ()), CallWatch (sample_answers\<lparr>dir_open := -1\<rparr>, ()),
     CallWatch (sample_answers\<lparr>dir_open := 9, file_open := (-1, False)\<rparr>, ()), CallClose 2, ThreadRuns]"

theorem watchers_refine_set_witness:
  "\<exists>st' wt'. fw_run kq_watch CloseWatch handle_unwatches sample_calls sample_kq
       = ([Inr 2, Inl (ErrnoToStatus 0 ''open() failed''), Inr 3], st') \<and> kq_ids st' = {3} \<and> kq_closed st' = {}
     \<and> fw_run (win_watch sample_lower) Win_CloseWatch DrainPendingUnwatches
         [CallWatch (sample_win_answers, ()), CallClose 1] sample_win0 = ([Inr 1], wt')
     \<and> win_ids wt' = {1} \<and> win_closed wt' = {1}"
proof -
  obtain rs st' where run: "fw_run kq_watch CloseWatch handle_unwatches sample_calls sample_kq = (rs, st')"
    by (metis surj_pair)
  have "fst (fw_run kq_watch CloseWatch handle_unwatches sample_calls sample_kq)
      = [Inr 2, Inl (ErrnoToStatus 0 ''open() failed''), Inr 3]" by code_simp
  with run have rs: "rs = [Inr 2, Inl (ErrnoToStatus 0 ''open() failed''), Inr 3]" by simp
  obtain wt' where wrun: "fw_run (win_watch sample_lower) Win_CloseWatch DrainPendingUnwatches
      [CallWatch (sample_win_answers, ()), CallClose 1] sample_win0 = ([Inr 1], wt')"
    using sample_win_result by (simp add: win_watch_def)
  from watchers_refine_set [OF sample_kq_created _ run sample_win0_created _ wrun] run rs wrun show ?thesis
    by (auto simp: sample_calls_def)
qed

end
