(* ===== verification/Kqueue_Recovery.thy ===== *)
theory Kqueue_Recovery
  imports Kqueue_Watcher
begin

text \<open>
  What a watch of the kqueue watcher is registered for, and that it survives the replacement
  of its file. The kernel never hands out a descriptor that is open; the runs considered here
  are those in which the answers of \<open>open\<close> keep to that. In them the registrations in the
  queue are exactly those of the watches: the directory of each watch, and its file while
  there is one. From this follows that a file that is deleted, renamed or replaced, the way
  editors save, is picked up again.
\<close>

section \<open>Fresh descriptors\<close>

text \<open>
  An event opens the file at most once. The descriptors open at that moment are those of the
  state the event leads to when \<open>open\<close> fails.
\<close>

definition fresh_answer :: "kevent \<Rightarrow> int \<times> bool \<Rightarrow> 'cb KqueueFileWatcher \<Rightarrow> bool" where
  "fresh_answer ev reopen st \<longleftrightarrow>
     fst reopen = -1 \<or> fst reopen \<notin> set (k_open (kq_kernel (handle_event ev (-1, False) 0 st)))"

fun fresh_events :: "(kevent \<times> (int \<times> bool) \<times> int) list \<Rightarrow> 'cb KqueueFileWatcher \<Rightarrow> bool" where
  "fresh_events [] st \<longleftrightarrow> True"
| "fresh_events ((ev, reopen, t) # evs) st \<longleftrightarrow>
     fresh_answer ev reopen st \<and> fresh_events evs (handle_event ev reopen t st)"

definition fresh_request :: "fs_answers \<Rightarrow> 'cb KqueueFileWatcher \<Rightarrow> bool" where
  "fresh_request ans st \<longleftrightarrow>
     dir_open ans = -1
     \<or> dir_open ans \<notin> set (k_open (kq_kernel st))
       \<and> (fst (file_open ans) = -1
          \<or> fst (file_open ans) \<notin> insert (dir_open ans) (set (k_open (kq_kernel st))))"

definition fresh_turn :: "kevent_answer \<Rightarrow> 'cb KqueueFileWatcher \<Rightarrow> bool" where
  "fresh_turn ans st \<longleftrightarrow>
     (case ans of KeventFailed \<Rightarrow> True | KeventReady evs \<Rightarrow> fresh_events evs (handle_unwatches st))"

inductive kq_fresh_step ::
  "nat \<times> 'cb KqueueFileWatcher \<Rightarrow> nat \<times> 'cb KqueueFileWatcher \<Rightarrow> bool" where
  watch: "WatchFile ans cb st = (r, st') \<Longrightarrow> fresh_request ans st \<Longrightarrow>
     kq_fresh_step (n, st) ((if dir_open ans = -1 then n else n + 1), st')"
| unwatch: "kq_fresh_step (n, st) (n, CloseWatch i st)"
| turn: "\<not> m_shutdown st \<Longrightarrow> mset (iter (kq_dirty st)) = mset (kq_dirty st) \<Longrightarrow> fresh_turn ans st \<Longrightarrow>
     kq_fresh_step (n, st) (n, Run_turn iter ans now st)"

definition kq_fresh_reachable :: "nat \<Rightarrow> 'cb KqueueFileWatcher \<Rightarrow> bool" where
  "kq_fresh_reachable n st \<longleftrightarrow>
     (\<exists>kq wake st0 k. KqueueFileWatcher_Create kq wake fresh_kernel = (Inr st0, k)
        \<and> kq_fresh_step\<^sup>*\<^sup>* (0, st0) (n, st))"

lemma kq_fresh_step_is_step: "kq_fresh_step a b \<Longrightarrow> kq_step a b"
  by (cases rule: kq_fresh_step.cases) (auto intro: kq_step.intros)

section \<open>Registrations of a watch\<close>

definition regs_of :: "'cb Watch \<Rightarrow> (int \<times> WatchId \<times> vnode_note list) set" where
  "regs_of w = {(fd, i, flags). fd \<noteq> -1 \<and> i = watch_id w
     \<and> (fd = fileFd w \<and> flags = kFileFlags \<or> fd = dirFd w \<and> flags = kDirFlags)}"

text \<open>
  The part of the kernel a watch is responsible for: \<open>R\<close> and \<open>D\<close> are the registrations and
  the descriptors of everything else.
\<close>

definition owns ::
  "'cb Watch \<Rightarrow> kernel \<Rightarrow> (int \<times> WatchId \<times> vnode_note list) set \<Rightarrow> int multiset \<Rightarrow> bool" where
  "owns w k R D \<longleftrightarrow>
     distinct (k_open k) \<and> mset (k_open k) = fds_of w + D
     \<and> set (k_armed k) = regs_of w \<union> R \<and> fst ` R \<subseteq> set_mset D"

lemma fst_regs_of: "fst ` regs_of w \<subseteq> set_mset (fds_of w)"
  by (auto simp: regs_of_def fds_of_def)

lemma owns_disjoint:
  assumes "owns w k R D" and "fd \<in># fds_of w"
  shows "fd \<notin># D" and "fd \<notin> fst ` R" and "count (fds_of w) fd = 1"
proof -
  have "count (fds_of w) fd + count D fd \<le> 1"
    using assms(1) distinct_count_atmost_1 [of "k_open k"] unfolding owns_def
    by (metis count_union le_numeral_extra(4) zero_le_one)
  moreover have "0 < count (fds_of w) fd" using assms(2) by simp
  ultimately have "count D fd = 0" and one: "count (fds_of w) fd = 1" by linarith+
  then show "fd \<notin># D" by (simp add: not_in_iff)
  show "count (fds_of w) fd = 1" by (rule one)
  show "fd \<notin> fst ` R" using assms(1) \<open>fd \<notin># D\<close> by (auto simp: owns_def)
qed

lemma set_AList_delete: "set (AList.delete k al) = {x \<in> set al. fst x \<noteq> k}"
  by (auto simp: AList.delete_eq)

lemma owns_DisarmFile:
  assumes "owns w k R D" and "DisarmFile w k = (w', k')"
  shows "owns w' k' R D"
proof (cases "fileFd w = -1")
  case False
  then have fd: "fileFd w \<in># fds_of w" by (simp add: fds_of_def)
  note own = owns_disjoint [OF assms(1) fd]
  have ne: "dirFd w \<noteq> fileFd w" using own(3) False by (auto simp: fds_of_def split: if_splits)
  have other: "(fileFd w, x) \<notin> R" for x using own(2) by force
  have "mset (k_open k') = fds_of w' + D"
    using balancedD [OF balanced_DisarmFile [OF assms(2)]] assms(1) by (simp add: owns_def)
  moreover have "set (k_armed k') = regs_of w' \<union> R"
    using assms False ne other
    by (auto simp: DisarmFile_def sys_close_def kevent_delete_def owns_def set_AList_delete regs_of_def)
  ultimately show ?thesis
    using assms False by (auto simp: owns_def DisarmFile_def sys_close_def kevent_delete_def)
qed (use assms in \<open>simp add: DisarmFile_def\<close>)

lemma owns_DisarmDir:
  assumes "owns w k R D" and "DisarmDir w k = (w', k')"
  shows "owns w' k' R D"
proof (cases "dirFd w = -1")
  case False
  then have fd: "dirFd w \<in># fds_of w" by (simp add: fds_of_def)
  note own = owns_disjoint [OF assms(1) fd]
  have ne: "fileFd w \<noteq> dirFd w" using own(3) False by (auto simp: fds_of_def split: if_splits)
  have other: "(dirFd w, x) \<notin> R" for x using own(2) by force
  have "mset (k_open k') = fds_of w' + D"
    using balancedD [OF balanced_DisarmDir [OF assms(2)]] assms(1) by (simp add: owns_def)
  moreover have "set (k_armed k') = regs_of w' \<union> R"
    using assms False ne other
    by (auto simp: DisarmDir_def sys_close_def kevent_delete_def owns_def set_AList_delete regs_of_def)
  ultimately show ?thesis
    using assms False by (auto simp: owns_def DisarmDir_def sys_close_def kevent_delete_def)
qed (use assms in \<open>simp add: DisarmDir_def\<close>)

lemma DisarmWatch_releases:
  assumes "owns w k R D" and "DisarmWatch w k = (w', k')"
  shows "distinct (k_open k') \<and> mset (k_open k') = D \<and> set (k_armed k') = R"
proof -
  obtain w1 k1 where d: "DisarmFile w k = (w1, k1)" by (metis surj_pair)
  with assms(2) have "DisarmDir w1 k1 = (w', k')" by (simp add: DisarmWatch_def)
  from owns_DisarmDir [OF owns_DisarmFile [OF assms(1) d] this] fds_DisarmWatch(2) [OF assms(2)]
    fst_regs_of [of w'] show ?thesis
    by (auto simp: owns_def)
qed

lemma owns_TryOpen:
  assumes "owns w k R D" and "TryOpenAndArmFile reopen w k = (r, w', k')"
    and "fst reopen = -1 \<or> fst reopen \<notin> set (k_open k)"
  shows "owns w' k' R D"
proof (cases "fileFd w \<noteq> -1 \<or> fst reopen = -1")
  case True
  then show ?thesis using assms by (auto simp: TryOpenAndArmFile_def sys_open_def Let_def split: if_splits)
next
  case False
  have bal: "mset (k_open k') = fds_of w' + D"
    using balancedD [OF balanced_TryOpen [OF assms(2)]] assms(1) by (simp add: owns_def)
  have new: "fst reopen \<notin> set (k_open k)" using False assms(3) by simp
  have "set_mset D \<union> set_mset (fds_of w) = set (k_open k)"
    using assms(1) unfolding owns_def by (metis set_mset_mset set_mset_union sup_commute)
  then have fresh: "fst reopen \<notin> fst ` set (k_armed k)"
    using assms(1) new fst_regs_of [of w] unfolding owns_def by blast
  have "AList.delete (fst reopen) (k_armed k) = k_armed k"
    using fresh by (intro AList.delete_id) auto
  moreover have "AList.update (fst reopen) v (k_armed k) = k_armed k @ [(fst reopen, v)]" for v
    using lhm_assign_fresh [OF fresh, of v] by (simp add: lhm_assign_def)
  ultimately show ?thesis
    using assms(1,2) False new bal
    by (cases "snd reopen")
      (auto simp: TryOpenAndArmFile_def sys_open_def sys_close_def ArmFile_def kevent_add_def Let_def
        owns_def regs_of_def)
qed

text \<open>The descriptors open when the event calls \<open>open\<close> are those it leaves if that fails.\<close>

lemma owns_HandleFileEvent:
  assumes "owns w k R D" and "HandleFileEvent reopen flags w k = (changed, w', k')"
    and "fst reopen = -1 \<or> fst reopen \<notin> set (k_open (snd (snd (HandleFileEvent (-1, False) flags w k))))"
  shows "owns w' k' R D" and "dirFd w' = dirFd w" and "watch_id w' = watch_id w"
proof -
  obtain w1 k1 where d: "DisarmFile w k = (w1, k1)" by (metis surj_pair)
  have "fileFd w1 = -1" "dirFd w1 = dirFd w" using d by (auto simp: DisarmFile_def split: if_splits)
  with assms(2,3) d owns_TryOpen [OF owns_DisarmFile [OF assms(1) d], of reopen changed w' k'] assms(1)
  show "owns w' k' R D" "dirFd w' = dirFd w"
    by (auto simp: HandleFileEvent_def TryOpenAndArmFile_def sys_open_def Let_def
        split: if_splits prod.splits bool.splits)
  show "watch_id w' = watch_id w" using balanced_HandleFileEvent [OF assms(2)] by (simp add: balanced_def)
qed

lemma owns_HandleDirEvent:
  assumes "owns w k R D" and "HandleDirEvent reopen w k = (changed, w', k')"
    and "fst reopen = -1 \<or> fst reopen \<notin> set (k_open (snd (snd (HandleDirEvent (-1, False) w k))))"
  shows "owns w' k' R D" and "dirFd w' = dirFd w" and "watch_id w' = watch_id w"
proof -
  show "owns w' k' R D"
    using assms owns_TryOpen [OF assms(1), of reopen changed w' k']
    by (auto simp: HandleDirEvent_def TryOpenAndArmFile_def sys_open_def Let_def split: if_splits)
  show "dirFd w' = dirFd w"
    using assms(2) by (auto simp: HandleDirEvent_def TryOpenAndArmFile_def Let_def
        split: if_splits prod.splits bool.splits)
  show "watch_id w' = watch_id w" using balanced_HandleDirEvent [OF assms(2)] by (simp add: balanced_def)
qed

section \<open>The queue holds exactly the registrations of the watches\<close>

definition all_regs :: "(WatchId \<times> 'cb Watch) list \<Rightarrow> (int \<times> WatchId \<times> vnode_note list) set" where
  "all_regs ws = (\<Union>(i, w) \<in> set ws. regs_of w)"

definition armed_inv :: "'cb KqueueFileWatcher \<Rightarrow> bool" where
  "armed_inv st \<longleftrightarrow>
     distinct (k_open (kq_kernel st)) \<and> set (k_armed (kq_kernel st)) = all_regs (m_watches st)
     \<and> (\<forall>(i, w) \<in> set (m_watches st). dirFd w \<noteq> -1)"

lemma armed_inv_frame [simp]:
  "armed_inv (st\<lparr>kq_dirty := d\<rparr>) = armed_inv st"
  "armed_inv (st\<lparr>kq_deadline := t\<rparr>) = armed_inv st"
  "armed_inv (st\<lparr>kq_fired := f\<rparr>) = armed_inv st"
  "armed_inv (st\<lparr>m_pendingUnwatches := p\<rparr>) = armed_inv st"
  "armed_inv (st\<lparr>m_nextWatchId := m\<rparr>) = armed_inv st"
  by (simp_all add: armed_inv_def)

lemma fst_all_regs: "fst ` all_regs ws \<subseteq> set_mset (held ws)"
proof (induction ws)
  case (Cons x ws)
  obtain i w where "x = (i, w)" by (cases x)
  with Cons fst_regs_of [of w] show ?case by (auto simp: all_regs_def)
qed (simp add: all_regs_def)

lemma all_regs_snoc: "all_regs (ws @ [(i, w)]) = regs_of w \<union> all_regs ws"
  by (auto simp: all_regs_def)

lemma set_split_key:
  assumes "distinct (map fst ws)" and "map_of ws i = Some w"
  shows "set ws = insert (i, w) (set (AList.delete i ws))"
    and "set (AList.update i w' ws) = insert (i, w') (set (AList.delete i ws))"
proof -
  have *: "(i, v) \<in> set ws \<longleftrightarrow> v = w" for v
    using assms(2) map_of_eq_Some_iff [OF assms(1), of i v] by auto
  show "set ws = insert (i, w) (set (AList.delete i ws))" by (auto simp: set_AList_delete *)
  show "set (AList.update i w' ws) = insert (i, w') (set (AList.delete i ws))"
  proof (rule set_eqI)
    fix x :: "'a \<times> 'b"
    obtain j v where x: "x = (j, v)" by (cases x)
    have d: "distinct (map fst (AList.update i w' ws))" using assms(1) by (rule distinct_update)
    have "map_of (AList.update i w' ws) j = (if j = i then Some w' else map_of ws j)"
      by (simp add: update_conv')
    then show "x \<in> set (AList.update i w' ws) \<longleftrightarrow> x \<in> insert (i, w') (set (AList.delete i ws))"
      unfolding x map_of_eq_Some_iff [OF d, symmetric]
      using map_of_eq_Some_iff [OF assms(1), of j v] by (auto simp: set_AList_delete)
  qed
qed

lemma armed_inv_owns:
  assumes "watches_inv n st" and "armed_inv st" and "map_of (m_watches st) i = Some w"
  shows "owns w (kq_kernel st) (all_regs (AList.delete i (m_watches st)))
    (add_mset (m_kqueue st) (held (AList.delete i (m_watches st))))"
proof -
  have d: "distinct (map fst (m_watches st))" using assms(1) by (simp add: watches_inv_def)
  have "all_regs (m_watches st) = regs_of w \<union> all_regs (AList.delete i (m_watches st))"
    unfolding all_regs_def set_split_key(1) [OF d assms(3)] by simp
  moreover have "mset (k_open (kq_kernel st))
      = fds_of w + add_mset (m_kqueue st) (held (AList.delete i (m_watches st)))"
    using assms(1) held_split [OF d assms(3), of w] by (simp add: watches_inv_def)
  moreover have "fst ` all_regs (AList.delete i (m_watches st))
      \<subseteq> set_mset (add_mset (m_kqueue st) (held (AList.delete i (m_watches st))))"
    using fst_all_regs by fastforce
  ultimately show ?thesis using assms(2) by (simp add: owns_def armed_inv_def)
qed

lemma owns_armed_inv:
  assumes "watches_inv n st" and "armed_inv st" and "map_of (m_watches st) i = Some w"
    and "owns w' k' (all_regs (AList.delete i (m_watches st))) D" and "dirFd w' \<noteq> -1"
  shows "armed_inv (st\<lparr>kq_kernel := k', m_watches := AList.update i w' (m_watches st)\<rparr>)"
proof -
  have d: "distinct (map fst (m_watches st))" using assms(1) by (simp add: watches_inv_def)
  have "all_regs (AList.update i w' (m_watches st)) = regs_of w' \<union> all_regs (AList.delete i (m_watches st))"
    unfolding all_regs_def set_split_key(2) [OF d assms(3)] by simp
  moreover have "dirFd v \<noteq> -1" if "(j, v) \<in> set (AList.update i w' (m_watches st))" for j v
    using that assms(2,5) unfolding set_split_key(2) [OF d assms(3)]
    by (auto simp: set_AList_delete armed_inv_def)
  ultimately show ?thesis using assms(4) by (auto simp: armed_inv_def owns_def)
qed

lemma armed_inv_event:
  assumes "watches_inv n st" and "armed_inv st" and "fresh_answer ev reopen st"
  shows "armed_inv (handle_event ev reopen now st)"
proof (cases ev)
  case (VnodeEvent idnt i flags)
  show ?thesis
  proof (cases "map_of (m_watches st) i")
    case (Some w)
    note own = armed_inv_owns [OF assms(1,2) Some]
    have dir: "dirFd w \<noteq> -1" using assms(2) map_of_SomeD [OF Some] by (auto simp: armed_inv_def)
    let ?h = "\<lambda>reopen. if idnt = fileFd w then HandleFileEvent reopen flags w (kq_kernel st)
       else HandleDirEvent reopen w (kq_kernel st)"
    obtain changed w' k' where h: "?h reopen = (changed, w', k')" by (metis prod_cases3)
    show ?thesis
    proof (cases "idnt \<noteq> fileFd w \<and> idnt \<noteq> dirFd w")
      case False
      have "kq_kernel (handle_event ev (-1, False) 0 st) = snd (snd (?h (-1, False)))"
        using False Some VnodeEvent by (auto simp: handle_event_def Let_def split: prod.split)
      then have fresh: "fst reopen = -1 \<or> fst reopen \<notin> set (k_open (snd (snd (?h (-1, False)))))"
        using assms(3) by (simp add: fresh_answer_def)
      have "owns w' k' (all_regs (AList.delete i (m_watches st)))
          (add_mset (m_kqueue st) (held (AList.delete i (m_watches st)))) \<and> dirFd w' = dirFd w"
        using h fresh owns_HandleFileEvent [OF own, of reopen flags changed w' k']
          owns_HandleDirEvent [OF own, of reopen changed w' k'] by (auto split: if_splits)
      then have "armed_inv (st\<lparr>kq_kernel := k', m_watches := AList.update i w' (m_watches st)\<rparr>)"
        using owns_armed_inv [OF assms(1,2) Some] dir by metis
      then show ?thesis using False Some VnodeEvent h by (auto simp: handle_event_def Let_def)
    qed (use VnodeEvent Some assms(2) in \<open>simp add: handle_event_def\<close>)
  qed (use VnodeEvent assms(2) in \<open>simp add: handle_event_def\<close>)
qed (use assms(2) in \<open>simp add: handle_event_def\<close>)

lemma armed_inv_events:
  "watches_inv n st \<Longrightarrow> dirty_inv st \<Longrightarrow> armed_inv st \<Longrightarrow> fresh_events evs st \<Longrightarrow>
     armed_inv (handle_events evs st)"
proof (induction evs arbitrary: st)
  case (Cons e evs)
  obtain ev reopen t where e: "e = (ev, reopen, t)" by (metis prod_cases3)
  have "armed_inv (handle_events evs (handle_event ev reopen t st))"
    using Cons.prems handle_event_inv [OF Cons.prems(1,2), of ev reopen t] armed_inv_event [OF Cons.prems(1,3)]
    by (intro Cons.IH) (auto simp: e)
  then show ?case by (simp add: handle_events_def e)
qed (simp add: handle_events_def)

lemma armed_inv_unwatch_one:
  assumes "watches_inv n st" and "armed_inv st"
  shows "armed_inv (unwatch_one i st)"
proof (cases "map_of (m_watches st) i")
  case (Some w)
  obtain w' k' where d: "DisarmWatch w (kq_kernel st) = (w', k')" by (metis surj_pair)
  from DisarmWatch_releases [OF armed_inv_owns [OF assms Some] d] show ?thesis
    using assms(2) Some d by (auto simp: unwatch_one_def armed_inv_def set_AList_delete)
qed (use assms(2) in \<open>simp add: unwatch_one_def\<close>)

lemma armed_inv_handle_unwatches:
  assumes "watches_inv n st" and "armed_inv st"
  shows "armed_inv (handle_unwatches st)"
proof -
  have "armed_inv (fold unwatch_one is st)" for "is"
    using assms by (induction "is" arbitrary: st) (simp_all add: watches_inv_unwatch_one armed_inv_unwatch_one)
  then show ?thesis by (simp add: handle_unwatches_def)
qed

lemma armed_inv_turn:
  assumes "watches_inv n st" and "dirty_inv st" and "armed_inv st" and "fresh_turn ans st"
  shows "armed_inv (Run_turn iter ans now st)"
proof -
  let ?st = "handle_unwatches st"
  have "watches_inv n ?st" "dirty_inv ?st" "armed_inv ?st"
    using watches_inv_handle_unwatches [OF assms(1)] armed_inv_handle_unwatches [OF assms(1,3)] assms(2)
    by (simp_all add: dirty_inv_def)
  then show ?thesis
    using assms(4) armed_inv_events [of n ?st]
    by (cases ans) (auto simp: Run_turn_eq fresh_turn_def fire_if_due_def FireDirty_def split: option.split)
qed

lemma armed_keys_open:
  "watches_inv n st \<Longrightarrow> armed_inv st \<Longrightarrow> fst ` set (k_armed (kq_kernel st)) \<subseteq> set (k_open (kq_kernel st))"
  using fst_all_regs [of "m_watches st"] unfolding watches_inv_def armed_inv_def
  by (metis order_trans set_mset_add_mset_insert set_mset_mset subset_insertI)

lemma TryOpen_dir: "TryOpenAndArmFile reopen w k = (r, w', k') \<Longrightarrow> dirFd w' = dirFd w"
  by (auto simp: TryOpenAndArmFile_def Let_def split: if_splits prod.splits bool.splits)

lemma armed_inv_WatchFile:
  assumes "watches_inv n st" and "armed_inv st" and "n + 2 < 2 ^ 64" and "WatchFile ans cb st = (r, st')"
    and "fresh_request ans st"
  shows "armed_inv st'"
proof -
  let ?fd = "dir_open ans" and ?i = "of_nat (n + 2) :: WatchId" and ?k = "kq_kernel st"
  let ?R = "all_regs (m_watches st)" and ?D = "add_mset (m_kqueue st) (held (m_watches st))"
  obtain w where w: "watch_id w = ?i" "fileFd w = -1" "dirFd w = ?fd"
    and eq: "WatchFile ans cb st = WatchFile_new ans ?i w st"
    by (rule WatchFile_eq [OF assms(1,3)])
  have keys: "fst ` set (k_armed ?k) \<subseteq> set (k_open ?k)" by (rule armed_keys_open [OF assms(1,2)])
  consider "?fd = -1" | (refused) "?fd \<noteq> -1" "\<not> dir_armed ans" | (armed) "?fd \<noteq> -1" "dir_armed ans" by blast
  then show ?thesis
  proof cases
    case 1
    then show ?thesis using assms(2,4) eq by (auto simp: WatchFile_new_def sys_open_def)
  next
    case refused
    then have "?fd \<notin> fst ` set (k_armed ?k)" using assms(5) keys by (auto simp: fresh_request_def)
    then have "AList.delete ?fd (k_armed ?k) = k_armed ?k" by (intro AList.delete_id) auto
    then show ?thesis using refused assms(2,4) eq w
      by (auto simp: WatchFile_new_def ArmDir_def kevent_add_def sys_open_def sys_close_def armed_inv_def)
  next
    case armed
    then have new: "?fd \<notin> set (k_open ?k)" using assms(5) by (auto simp: fresh_request_def)
    with keys have "AList.update ?fd v (k_armed ?k) = k_armed ?k @ [(?fd, v)]" for v
      using lhm_assign_fresh [of ?fd "k_armed ?k" v] by (auto simp: lhm_assign_def)
    moreover define k1 where "k1 = snd (ArmDir True w (sys_open ?fd ?k))"
    ultimately have k1: "k_open k1 = ?fd # k_open ?k" "k_armed k1 = k_armed ?k @ [(?fd, ?i, kDirFlags)]"
      "ArmDir True w (sys_open ?fd ?k) = (True, k1)"
      using armed w by (auto simp: ArmDir_def kevent_add_def sys_open_def)
    have "regs_of w = {(?fd, ?i, kDirFlags)}" "fds_of w = {#?fd#}"
      using armed w by (auto simp: regs_of_def fds_of_def)
    moreover have "fst ` ?R \<subseteq> set_mset ?D" using fst_all_regs [of "m_watches st"] by auto
    ultimately have own: "owns w k1 ?R ?D"
      using k1 new assms(1,2) by (auto simp: owns_def armed_inv_def watches_inv_def)
    obtain b w' k' where t: "TryOpenAndArmFile (file_open ans) w k1 = (b, w', k')" by (metis prod_cases3)
    have "fst (file_open ans) = -1 \<or> fst (file_open ans) \<notin> set (k_open k1)"
      using assms(5) armed(1) k1(1) by (auto simp: fresh_request_def)
    from owns_TryOpen [OF own t this] TryOpen_dir [OF t] w(3) armed assms(2,4) k1(3) t eq show ?thesis
      by (auto simp: WatchFile_new_def armed_inv_def owns_def all_regs_snoc)
  qed
qed

lemma kq_fresh_step_inv:
  assumes "kq_fresh_step (n, st) (n', st')" and "n' + 2 < 2 ^ 64"
    and "watches_inv n st" and "dirty_inv st" and "armed_inv st"
  shows "watches_inv n' st' \<and> dirty_inv st' \<and> armed_inv st' \<and> n \<le> n'"
proof -
  have "armed_inv st'"
    using assms(1)
  proof cases
    case (watch ans cb r)
    have "n + 2 < 2 ^ 64" using watch assms(2) by (auto split: if_splits)
    from armed_inv_WatchFile [OF assms(3,5) this] watch show ?thesis by blast
  next
    case (unwatch i)
    then show ?thesis using assms(5) by (simp add: CloseWatch_def)
  next
    case (turn iter ans now)
    then show ?thesis using armed_inv_turn [OF assms(3-5)] by blast
  qed
  with kq_step_inv [OF kq_fresh_step_is_step [OF assms(1)] assms(2-4)] show ?thesis by blast
qed

lemma kq_fresh_steps_inv:
  assumes "kq_fresh_step\<^sup>*\<^sup>* a b" and "watches_inv (fst a) (snd a)" and "dirty_inv (snd a)" and "armed_inv (snd a)"
  shows "fst b + 2 < 2 ^ 64 \<Longrightarrow> watches_inv (fst b) (snd b) \<and> dirty_inv (snd b) \<and> armed_inv (snd b)"
  using assms
proof (induction rule: rtranclp_induct)
  case (step b c)
  have "fst b \<le> fst c" using step.hyps(2) by (cases rule: kq_fresh_step.cases) auto
  then have "watches_inv (fst b) (snd b)" "dirty_inv (snd b)" "armed_inv (snd b)"
    using step.IH step.prems by auto
  moreover have "kq_fresh_step (fst b, snd b) (fst c, snd c)" using step.hyps(2) by simp
  ultimately show ?case using kq_fresh_step_inv step.prems(1) by blast
qed auto

lemma armed_inv_new:
  "KqueueFileWatcher_Create kq wake fresh_kernel = (Inr st, k) \<Longrightarrow> armed_inv st"
  by (auto simp: armed_inv_def all_regs_def KqueueFileWatcher_Create_def KqueueFileWatcher_new_def
      sys_open_def Let_def split: if_splits option.splits)

lemma kq_fresh_reachable_inv:
  assumes "kq_fresh_reachable n st" and "n + 2 < 2 ^ 64"
  shows "watches_inv n st" and "armed_inv st"
proof -
  obtain kq wake st0 k where new: "KqueueFileWatcher_Create kq wake fresh_kernel = (Inr st0, k)"
    and run: "kq_fresh_step\<^sup>*\<^sup>* (0, st0) (n, st)"
    using assms(1) unfolding kq_fresh_reachable_def by blast
  from kq_fresh_steps_inv [OF run] watches_inv_new [OF new] armed_inv_new [OF new] assms(2)
  show "watches_inv n st" "armed_inv st" by simp_all
qed

section \<open>Properties\<close>

text \<open>
  C9. No watch goes deaf: as long as the kernel hands out only descriptors that are not
  open, then whatever is watched, unwatched and delivered, in any order and with any
  failures, the registrations in the queue are exactly these: for each watch its directory,
  and its file while it has one open, under the watch's own identifier and with the flags for
  a directory or a file; and each watch has its directory open.
\<close>

theorem watches_stay_armed:
  assumes "kq_fresh_reachable n st" and "n + 2 < 2 ^ 64"
  shows "((fd, i, flags) \<in> set (k_armed (kq_kernel st)) \<longleftrightarrow>
      (\<exists>w. map_of (m_watches st) i = Some w \<and> fd \<noteq> -1
         \<and> (fd = dirFd w \<and> flags = kDirFlags \<or> fd = fileFd w \<and> flags = kFileFlags)))
    \<and> (\<forall>(j, w) \<in> set (m_watches st). dirFd w \<noteq> -1)"
proof -
  note inv = kq_fresh_reachable_inv [OF assms]
  have "map_of (m_watches st) i = Some w \<longleftrightarrow> (i, w) \<in> set (m_watches st)" for w
    using inv(1) by (simp add: watches_inv_def)
  then show ?thesis
    using inv by (fastforce simp: armed_inv_def all_regs_def regs_of_def watches_inv_def)
qed

lemma sample_watcher_fresh: "kq_fresh_reachable 1 sample_watcher"
proof -
  have "fresh_request sample_answers sample_kq" by code_simp
  then have "kq_fresh_step (0, sample_kq) ((if dir_open sample_answers = -1 then 0 else 0 + 1), sample_watcher)"
    unfolding sample_watcher_def by (rule kq_fresh_step.watch [OF surjective_pairing])
  with sample_kq_created show ?thesis
    unfolding kq_fresh_reachable_def by (force simp: sample_answers_def)
qed

theorem watches_stay_armed_witness:
  "(8, 2, kFileFlags) \<in> set (k_armed (kq_kernel sample_watcher))
   \<and> map_option fileFd (map_of (m_watches sample_watcher) 2) = Some 8"
proof -
  have w: "map_option fileFd (map_of (m_watches sample_watcher) 2) = Some 8" by code_simp
  then obtain v where "map_of (m_watches sample_watcher) 2 = Some v" "fileFd v = 8" by auto
  with watches_stay_armed [OF sample_watcher_fresh, of 8 2 kFileFlags] w show ?thesis by auto
qed

text \<open>Opening a watch's file succeeds when \<open>open\<close> and the registration do.\<close>

lemma TryOpen_succeeds:
  assumes "fd \<noteq> -1" and "fileFd w = -1"
  obtains k' where "TryOpenAndArmFile (fd, True) w k = (True, w\<lparr>fileFd := fd\<rparr>, k')"
    "(fd, watch_id w, kFileFlags) \<in> set (k_armed k')"
proof -
  let ?k = "k\<lparr>k_open := fd # k_open k, k_armed := AList.update fd (watch_id w, kFileFlags) (k_armed k)\<rparr>"
  have "map_of (AList.update fd (watch_id w, kFileFlags) (k_armed k)) fd = Some (watch_id w, kFileFlags)"
    by (simp add: update_conv')
  then show thesis
    using assms by (intro that [of ?k])
      (auto simp: TryOpenAndArmFile_def sys_open_def ArmFile_def kevent_add_def Let_def dest: map_of_SomeD)
qed

text \<open>What handling an event does once the watch's answer is known.\<close>

lemma handle_event_watch:
  assumes "map_of (m_watches st) i = Some w" and "idnt = fileFd w \<or> idnt = dirFd w"
    and "(if idnt = fileFd w then HandleFileEvent reopen flags w (kq_kernel st)
          else HandleDirEvent reopen w (kq_kernel st)) = (changed, w', k')"
  shows "map_of (m_watches (handle_event (VnodeEvent idnt i flags) reopen now st)) i = Some w'"
    and "kq_kernel (handle_event (VnodeEvent idnt i flags) reopen now st) = k'"
    and "set (kq_dirty (handle_event (VnodeEvent idnt i flags) reopen now st))
      = (if changed then insert i (set (kq_dirty st)) else set (kq_dirty st))"
  using assms by (auto simp: handle_event_def Let_def update_conv')

text \<open>
  C19. A replaced file is picked up again. When the file of a watch is deleted, renamed or
  revoked and its path can be opened anew, the watch is marked dirty and is registered on the
  new file. When the path cannot be opened yet, nothing is reported, the watch has no file and
  its directory stays registered; the next event of that directory after which the path can be
  opened marks the watch dirty and registers it on the new file.
\<close>

theorem replaced_file_recovers:
  assumes "kq_fresh_reachable n st" and "n + 2 < 2 ^ 64" and "map_of (m_watches st) i = Some w"
    and "fileFd w \<noteq> -1" and "set flags \<inter> {NOTE_DELETE, NOTE_RENAME, NOTE_REVOKE} \<noteq> {}" and "fd \<noteq> -1"
  shows "(let st' = handle_event (VnodeEvent (fileFd w) i flags) (fd, True) now st in
        set (kq_dirty st') = insert i (set (kq_dirty st)) \<and> map_of (m_watches st') i = Some (w\<lparr>fileFd := fd\<rparr>)
        \<and> (fd, i, kFileFlags) \<in> set (k_armed (kq_kernel st')))
    \<and> (let st1 = handle_event (VnodeEvent (fileFd w) i flags) (-1, armed) now st;
           st2 = handle_event (VnodeEvent (dirFd w) i dir_flags) (fd, True) later st1 in
        set (kq_dirty st1) = set (kq_dirty st) \<and> map_of (m_watches st1) i = Some (w\<lparr>fileFd := -1\<rparr>)
        \<and> (dirFd w, i, kDirFlags) \<in> set (k_armed (kq_kernel st1))
        \<and> set (kq_dirty st2) = insert i (set (kq_dirty st)) \<and> map_of (m_watches st2) i = Some (w\<lparr>fileFd := fd\<rparr>)
        \<and> (fd, i, kFileFlags) \<in> set (k_armed (kq_kernel st2)))"
proof -
  note inv = kq_fresh_reachable_inv [OF assms(1,2)]
  have w: "watch_id w = i" "dirFd w \<noteq> -1"
    using inv map_of_SomeD [OF assms(3)] by (auto simp: watches_inv_def armed_inv_def)
  let ?w = "w\<lparr>fileFd := -1\<rparr>"
  obtain k1 where d: "DisarmFile w (kq_kernel st) = (?w, k1)" using assms(4) by (simp add: DisarmFile_def)
  have dir: "(dirFd w, i, kDirFlags) \<in> set (k_armed k1)"
    using owns_DisarmFile [OF armed_inv_owns [OF inv assms(3)] d] w by (auto simp: owns_def regs_of_def)
  have gone: "HandleFileEvent reopen flags w (kq_kernel st) = TryOpenAndArmFile reopen ?w k1" for reopen
    using assms(5) d by (simp add: HandleFileEvent_def)
  have "fileFd ?w = -1" by simp
  then obtain k2 where k2: "TryOpenAndArmFile (fd, True) ?w k1 = (True, ?w\<lparr>fileFd := fd\<rparr>, k2)"
    "(fd, watch_id ?w, kFileFlags) \<in> set (k_armed k2)"
    by (rule TryOpen_succeeds [OF assms(6), of ?w k1])
  have missing: "TryOpenAndArmFile (-1, armed) ?w k1 = (False, ?w, k1)"
    by (simp add: TryOpenAndArmFile_def sys_open_def)
  let ?st1 = "handle_event (VnodeEvent (fileFd w) i flags) (-1, armed) now st"
  have st1: "map_of (m_watches ?st1) i = Some ?w" "kq_kernel ?st1 = k1" "set (kq_dirty ?st1) = set (kq_dirty st)"
    using handle_event_watch [OF assms(3), of "fileFd w" "(-1, armed)" flags False ?w k1 now] missing
    by (simp_all add: gone)
  show ?thesis
    using handle_event_watch [OF assms(3), of "fileFd w" "(fd, True)" flags True "w\<lparr>fileFd := fd\<rparr>" k2 now]
      handle_event_watch [OF st1(1), of "dirFd w" "(fd, True)" dir_flags True "w\<lparr>fileFd := fd\<rparr>" k2 later]
      st1 dir k2 w
    by (simp add: gone HandleDirEvent_def)
qed

theorem replaced_file_recovers_witness:
  "\<exists>w. map_of (m_watches sample_watcher) 2 = Some w
     \<and> (9, 2, kFileFlags) \<in> set (k_armed (kq_kernel
          (handle_event (VnodeEvent (fileFd w) 2 [NOTE_RENAME]) (9, True) 0 sample_watcher)))"
proof -
  have "map_option fileFd (map_of (m_watches sample_watcher) 2) = Some 8" by code_simp
  then obtain w where w: "map_of (m_watches sample_watcher) 2 = Some w" "fileFd w \<noteq> -1" by auto
  from replaced_file_recovers [OF sample_watcher_fresh _ w, of "[NOTE_RENAME]" 9 0] w(1) show ?thesis
    by (simp add: Let_def)
qed

end
