(* ===== verification/Kqueue_Thread.thy ===== *)
theory Kqueue_Thread
  imports Kqueue_Watcher
begin

text \<open>
  The thread of the kqueue watcher at the grain at which it shares state. \<open>Kqueue_Watcher\<close>
  takes a turn of \<open>Run\<close> as one step; here the turn is cut where the mutex is released: the
  test of \<open>m_shutdown\<close>, the pending unwatches, the wait in \<open>kevent\<close>, each event, the
  callbacks. \<open>CloseWatch\<close> and the destructor are cut too, between their change of the shared
  state and the call of \<open>Wake\<close>. Any of these steps may come between any others.

  The wake event is registered with \<open>EV_CLEAR\<close>: once triggered it stays so until \<open>kevent\<close>
  returns it. \<open>kevent\<close> may return at any time; it does return when something is triggered or a
  timeout was set. An exception a callback throws ends the thread, which the lambda in
  \<open>Create\<close> only logs.
\<close>

section \<open>The steps\<close>

definition kBatch :: nat where
  "kBatch = 16"

datatype run_pc =
    AtTop
  | AtDrain
  | AtWait
  | AtEvents "(kevent \<times> (int \<times> bool) \<times> int) list"
  | Ended

text \<open>
  \<open>wakers\<close> counts the calls that have changed the shared state and not yet called \<open>Wake\<close>;
  \<open>wake_failed\<close> remembers that a \<open>Wake\<close> failed, \<open>ids_issued\<close> counts identifiers.
\<close>

record 'cb kq_config =
  watcher :: "'cb KqueueFileWatcher"
  pc :: run_pc
  wake_triggered :: bool
  wakers :: nat
  wake_failed :: bool
  ids_issued :: nat

definition Wake :: "bool \<Rightarrow> 'cb kq_config \<Rightarrow> 'cb kq_config" where
  "Wake ok c =
     (if ok then c\<lparr>wake_triggered := True\<rparr> else c\<lparr>wake_failed := True\<rparr>)"

definition kq_config_new :: "'cb KqueueFileWatcher \<Rightarrow> 'cb kq_config" where
  "kq_config_new st = \<lparr>watcher = st, pc = AtTop, wake_triggered = False, wakers = 0,
     wake_failed = False, ids_issued = 0\<rparr>"

text \<open>The calls \<open>FireDirty\<close> makes once it has released the mutex.\<close>

definition fire_calls ::
  "(WatchId list \<Rightarrow> WatchId list) \<Rightarrow> 'cb KqueueFileWatcher \<Rightarrow> (WatchId \<times> 'cb \<times> string) list" where
  "fire_calls iter st =
     List.map_filter (\<lambda>i. map_option (\<lambda>w. (i, callback w, watch_path w)) (map_of (m_watches st) i))
       (iter (kq_dirty st))"

lemma FireDirty_calls: "FireDirty iter st = st\<lparr>kq_fired := kq_fired st @ fire_calls iter st\<rparr>"
  by (simp add: FireDirty_def fire_calls_def)

text \<open>
  While a handle's \<open>Unwatch\<close> runs it holds a reference, so the destructor starts only when
  no \<open>Wake\<close> is outstanding, and nothing is watched or unwatched after it has started.
\<close>

inductive kq_run :: "'cb kq_config \<Rightarrow> 'cb kq_config \<Rightarrow> bool" where
  watch: "\<not> m_shutdown (watcher c) \<Longrightarrow> WatchFile ans cb (watcher c) = (r, st) \<Longrightarrow>
     kq_run c (c\<lparr>watcher := st,
                 ids_issued := (if dir_open ans = -1 then ids_issued c else ids_issued c + 1)\<rparr>)"
| close_push: "\<not> m_shutdown (watcher c) \<Longrightarrow>
     kq_run c (c\<lparr>watcher := CloseWatch i (watcher c), wakers := wakers c + 1\<rparr>)"
| wake: "0 < wakers c \<Longrightarrow> kq_run c (Wake ok (c\<lparr>wakers := wakers c - 1\<rparr>))"
| shut: "\<not> m_shutdown (watcher c) \<Longrightarrow> wakers c = 0 \<Longrightarrow>
     kq_run c (c\<lparr>watcher := (watcher c)\<lparr>m_shutdown := True\<rparr>, wakers := 1\<rparr>)"
| check: "pc c = AtTop \<Longrightarrow>
     kq_run c (c\<lparr>pc := (if m_shutdown (watcher c) then Ended else AtDrain)\<rparr>)"
| drain: "pc c = AtDrain \<Longrightarrow>
     kq_run c (c\<lparr>watcher := handle_unwatches (watcher c), pc := AtWait\<rparr>)"
| ready: "pc c = AtWait \<Longrightarrow> length evs \<le> kBatch \<Longrightarrow> WakeEvent \<in> fst ` set evs \<longrightarrow> wake_triggered c \<Longrightarrow>
     kq_run c (c\<lparr>pc := AtEvents evs, wake_triggered := wake_triggered c \<and> WakeEvent \<notin> fst ` set evs\<rparr>)"
| failed: "pc c = AtWait \<Longrightarrow> kq_run c (c\<lparr>pc := AtTop\<rparr>)"
| event: "pc c = AtEvents ((ev, reopen, t) # evs) \<Longrightarrow>
     kq_run c (c\<lparr>watcher := handle_event ev reopen t (watcher c), pc := AtEvents evs\<rparr>)"
| fire: "pc c = AtEvents [] \<Longrightarrow> mset (iter (kq_dirty (watcher c))) = mset (kq_dirty (watcher c)) \<Longrightarrow>
     kq_run c (c\<lparr>watcher := fire_if_due iter now (watcher c), pc := AtTop\<rparr>)"
| throws: "pc c = AtEvents [] \<Longrightarrow> kq_deadline (watcher c) = Some d \<Longrightarrow> d \<le> now \<Longrightarrow>
     calls = fire_calls iter (watcher c) \<Longrightarrow> m < length calls \<Longrightarrow>
     kq_run c (c\<lparr>watcher := (watcher c)\<lparr>kq_fired := kq_fired (watcher c) @ take (Suc m) calls\<rparr>, pc := Ended\<rparr>)"

definition kq_run_reachable :: "'cb kq_config \<Rightarrow> bool" where
  "kq_run_reachable c \<longleftrightarrow>
     (\<exists>kq wk st k. KqueueFileWatcher_Create kq wk fresh_kernel = (Inr st, k)
        \<and> kq_run\<^sup>*\<^sup>* (kq_config_new st) c)"

text \<open>The thread goes on by itself: it is not in \<open>kevent\<close> with nothing to return and no timeout.\<close>

definition can_proceed :: "'cb kq_config \<Rightarrow> bool" where
  "can_proceed c \<longleftrightarrow>
     pc c \<noteq> Ended \<and> (pc c = AtWait \<longrightarrow> wake_triggered c \<or> kq_deadline (watcher c) \<noteq> None)"

text \<open>Run without interruption from the test of the flag, the steps of the thread are the turn.\<close>

lemma turn_is_run:
  assumes "pc c = AtTop" and "\<not> m_shutdown (watcher c)" and "length evs \<le> kBatch"
    and "WakeEvent \<in> fst ` set evs \<longrightarrow> wake_triggered c"
    and iter: "\<And>xs. mset (iter xs) = mset xs"
  shows "kq_run\<^sup>*\<^sup>* c (c\<lparr>watcher := Run_turn iter (KeventReady evs) now (watcher c),
    wake_triggered := wake_triggered c \<and> WakeEvent \<notin> fst ` set evs\<rparr>)"
proof -
  let ?w = "wake_triggered c \<and> WakeEvent \<notin> fst ` set evs"
  have events: "kq_run\<^sup>*\<^sup>* (c\<lparr>watcher := st, pc := AtEvents es, wake_triggered := b\<rparr>)
      (c\<lparr>watcher := handle_events es st, pc := AtEvents [], wake_triggered := b\<rparr>)" for es st b
  proof (induction es arbitrary: st)
    case (Cons e es)
    obtain ev reopen t where e: "e = (ev, reopen, t)" by (metis prod_cases3)
    have "kq_run (c\<lparr>watcher := st, pc := AtEvents (e # es), wake_triggered := b\<rparr>)
        (c\<lparr>watcher := handle_event ev reopen t st, pc := AtEvents es, wake_triggered := b\<rparr>)"
      using kq_run.event [of "c\<lparr>watcher := st, pc := AtEvents (e # es), wake_triggered := b\<rparr>"]
      by (cases c) (simp add: e)
    from converse_rtranclp_into_rtranclp [of kq_run, OF this Cons.IH] show ?case
      by (simp add: handle_events_def e)
  qed (simp add: handle_events_def)
  let ?st = "handle_unwatches (watcher c)"
  have "kq_run c (c\<lparr>pc := AtDrain\<rparr>)" using kq_run.check [OF assms(1)] assms(2) by simp
  moreover have "kq_run (c\<lparr>pc := AtDrain\<rparr>) (c\<lparr>watcher := ?st, pc := AtWait\<rparr>)"
    using kq_run.drain [of "c\<lparr>pc := AtDrain\<rparr>"] by simp
  moreover have "kq_run (c\<lparr>watcher := ?st, pc := AtWait\<rparr>)
      (c\<lparr>watcher := ?st, pc := AtEvents evs, wake_triggered := ?w\<rparr>)"
    using kq_run.ready [of "c\<lparr>watcher := ?st, pc := AtWait\<rparr>" evs] assms(3,4) by simp
  moreover note events [where st = ?st and es = evs and b = ?w]
  moreover have "kq_run (c\<lparr>watcher := handle_events evs ?st, pc := AtEvents [], wake_triggered := ?w\<rparr>)
      (c\<lparr>watcher := Run_turn iter (KeventReady evs) now (watcher c), pc := AtTop, wake_triggered := ?w\<rparr>)"
    using kq_run.fire [of "c\<lparr>watcher := handle_events evs ?st, pc := AtEvents [], wake_triggered := ?w\<rparr>" iter now]
      iter by (cases c) (simp add: Run_turn_eq)
  moreover have "c\<lparr>watcher := st, pc := AtTop, wake_triggered := b\<rparr> = c\<lparr>watcher := st, wake_triggered := b\<rparr>" for st b
    using assms(1) by (cases c) simp
  ultimately show ?thesis
    by (simp add: converse_rtranclp_into_rtranclp [of kq_run] rtranclp.rtrancl_into_rtrancl [of kq_run])
qed

section \<open>Invariants of the interleaved steps\<close>

inductive_cases kq_run_cases: "kq_run c c'"

lemma handle_event_shared [simp]:
  "m_shutdown (handle_event ev reopen t st) = m_shutdown st"
  "m_pendingUnwatches (handle_event ev reopen t st) = m_pendingUnwatches st"
  by (auto simp: handle_event_def Let_def split: kevent.split option.split prod.split)

lemma handle_unwatches_shutdown [simp]: "m_shutdown (handle_unwatches st) = m_shutdown st"
proof -
  have "m_shutdown (fold unwatch_one is st) = m_shutdown st" for "is"
    by (induction "is" arbitrary: st) (auto simp: unwatch_one_def split: option.split prod.split)
  then show ?thesis by (simp add: handle_unwatches_def)
qed

lemma fire_if_due_shared [simp]:
  "m_shutdown (fire_if_due iter t st) = m_shutdown st"
  "m_pendingUnwatches (fire_if_due iter t st) = m_pendingUnwatches st"
  by (auto simp: fire_if_due_def FireDirty_def split: option.split)

lemma WatchFile_shared:
  "WatchFile ans cb st = (r, st') \<Longrightarrow>
     m_shutdown st' = m_shutdown st \<and> m_pendingUnwatches st' = m_pendingUnwatches st"
  by (auto simp: WatchFile_def Let_def split: if_splits prod.splits bool.splits)

lemma fire_if_due_inv:
  "watches_inv n st \<Longrightarrow> watches_inv n (fire_if_due iter t st)"
  "dirty_inv st \<Longrightarrow> dirty_inv (fire_if_due iter t st)"
  by (auto simp: fire_if_due_def FireDirty_def dirty_inv_def split: option.split)

lemma kq_run_watcher_inv:
  assumes "kq_run c c'" and "ids_issued c' + 2 < 2 ^ 64"
    and "watches_inv (ids_issued c) (watcher c)" and "dirty_inv (watcher c)"
  shows "watches_inv (ids_issued c') (watcher c') \<and> dirty_inv (watcher c')"
  using assms(1)
proof cases
  case (watch ans cb r st)
  have "ids_issued c + 2 < 2 ^ 64" using watch assms(2) by (auto split: if_splits)
  from WatchFile_inv(1,2) [OF assms(3) this watch(3)] watch assms(4) show ?thesis by auto
next
  case drain
  then show ?thesis
    using watches_inv_handle_unwatches [OF assms(3)] assms(4) by (simp add: dirty_inv_def)
next
  case (event ev reopen t evs)
  then show ?thesis using handle_event_inv [OF assms(3,4)] by simp
next
  case (fire iter t)
  then show ?thesis using assms(3,4) by (simp add: fire_if_due_inv)
qed (use assms(3,4) in \<open>auto simp: CloseWatch_def Wake_def watches_inv_def dirty_inv_def\<close>)

definition wake_inv :: "'cb kq_config \<Rightarrow> bool" where
  "wake_inv c \<longleftrightarrow>
     wake_failed c \<or> 0 < wakers c \<or> wake_triggered c
     \<or> (m_pendingUnwatches (watcher c) \<noteq> [] \<longrightarrow> pc c \<noteq> AtWait)
       \<and> (m_shutdown (watcher c) \<longrightarrow> pc c \<noteq> AtDrain \<and> pc c \<noteq> AtWait)"

lemma kq_run_wake_inv: "kq_run c c' \<Longrightarrow> wake_inv c \<Longrightarrow> wake_inv c'"
  by (erule kq_run_cases)
    (auto simp: wake_inv_def Wake_def CloseWatch_def dest: WatchFile_shared)

lemma kq_run_ids_mono: "kq_run c c' \<Longrightarrow> ids_issued c \<le> ids_issued c'"
  by (erule kq_run_cases) (auto simp: Wake_def)

lemma kq_run_reachable_inv:
  assumes "kq_run_reachable c"
  shows "wake_inv c"
    and "ids_issued c + 2 < 2 ^ 64 \<Longrightarrow> watches_inv (ids_issued c) (watcher c) \<and> dirty_inv (watcher c)"
proof -
  obtain kq wk st k where new: "KqueueFileWatcher_Create kq wk fresh_kernel = (Inr st, k)"
    and run: "kq_run\<^sup>*\<^sup>* (kq_config_new st) c"
    using assms unfolding kq_run_reachable_def by blast
  from run show "wake_inv c"
  proof (induction rule: rtranclp_induct)
    case base
    have "\<not> m_shutdown st" "m_pendingUnwatches st = []"
      using new by (auto simp: KqueueFileWatcher_Create_def KqueueFileWatcher_new_def Let_def
          split: if_splits option.splits)
    then show ?case by (simp add: wake_inv_def kq_config_new_def)
  qed (rule kq_run_wake_inv)
  from run show "ids_issued c + 2 < 2 ^ 64 \<Longrightarrow> watches_inv (ids_issued c) (watcher c) \<and> dirty_inv (watcher c)"
  proof (induction rule: rtranclp_induct)
    case base
    then show ?case using watches_inv_new [OF new] by (simp add: kq_config_new_def)
  next
    case (step c c')
    then show ?case using kq_run_ids_mono [OF step.hyps(2)] kq_run_watcher_inv [OF step.hyps(2)] by simp
  qed
qed

section \<open>Properties\<close>


text \<open>
  C17. No wake-up is lost: whenever an unwatch is pending or the destructor has asked the
  thread to stop, and every call of \<open>Wake\<close> so far has been made and has succeeded, the
  thread has ended or goes on by itself. It never sleeps in \<open>kevent\<close> without a timeout
  while there is work for it.
\<close>

theorem no_lost_wakeup:
  assumes "kq_run_reachable c" and "wakers c = 0" and "\<not> wake_failed c"
    and "m_pendingUnwatches (watcher c) \<noteq> [] \<or> m_shutdown (watcher c)"
  shows "pc c = Ended \<or> can_proceed c"
  using kq_run_reachable_inv(1) [OF assms(1)] assms(2-4) by (auto simp: wake_inv_def can_proceed_def)

section \<open>Stopping\<close>

text \<open>Once the destructor has started, every step lowers this rank.\<close>

definition stop_rank :: "'cb kq_config \<Rightarrow> nat" where
  "stop_rank c = wakers c +
     (case pc c of
        Ended \<Rightarrow> 0
      | AtTop \<Rightarrow> 1
      | AtEvents evs \<Rightarrow> 2 + length evs
      | AtWait \<Rightarrow> 3 + kBatch
      | AtDrain \<Rightarrow> 4 + kBatch)"

lemma kq_run_stop_rank:
  "kq_run c c' \<Longrightarrow> m_shutdown (watcher c) \<Longrightarrow> m_shutdown (watcher c') \<and> stop_rank c' < stop_rank c"
  by (erule kq_run_cases) (auto simp: stop_rank_def Wake_def kBatch_def)

lemma kq_runs_stop_rank:
  "(kq_run ^^ n) c c' \<Longrightarrow> m_shutdown (watcher c) \<Longrightarrow> m_shutdown (watcher c') \<and> n + stop_rank c' \<le> stop_rank c"
proof (induction n arbitrary: c')
  case (Suc n)
  then obtain b where "(kq_run ^^ n) c b" "kq_run b c'" by auto
  with Suc.IH [of b] Suc.prems(2) kq_run_stop_rank [of b c'] show ?case by fastforce
qed simp

definition batch_inv :: "'cb kq_config \<Rightarrow> bool" where
  "batch_inv c \<longleftrightarrow>
     (case pc c of AtEvents evs \<Rightarrow> length evs \<le> kBatch | _ \<Rightarrow> True) \<and> (m_shutdown (watcher c) \<longrightarrow> wakers c \<le> 1)"

lemma kq_run_batch_inv: "kq_run c c' \<Longrightarrow> batch_inv c \<Longrightarrow> batch_inv c'"
  by (erule kq_run_cases)
    (auto simp: batch_inv_def Wake_def CloseWatch_def dest: WatchFile_shared split: run_pc.splits)

lemma kq_reachable_stop_rank:
  assumes "kq_run_reachable c" and "m_shutdown (watcher c)"
  shows "stop_rank c \<le> 21"
proof -
  obtain kq wk st k where new: "KqueueFileWatcher_Create kq wk fresh_kernel = (Inr st, k)"
    and run: "kq_run\<^sup>*\<^sup>* (kq_config_new st) c"
    using assms(1) unfolding kq_run_reachable_def by blast
  have "\<not> m_shutdown st"
    using new by (auto simp: KqueueFileWatcher_Create_def KqueueFileWatcher_new_def Let_def
        split: if_splits option.splits)
  then have "batch_inv (kq_config_new st)" by (simp add: batch_inv_def kq_config_new_def)
  with run have "batch_inv c" by (induction rule: rtranclp_induct) (auto intro: kq_run_batch_inv)
  with assms(2) show ?thesis
    by (auto simp: batch_inv_def stop_rank_def kBatch_def split: run_pc.splits)
qed

lemma kq_runs_reachable:
  assumes "kq_run_reachable c" and "kq_run\<^sup>*\<^sup>* c c'"
  shows "kq_run_reachable c'"
  using assms unfolding kq_run_reachable_def by (meson rtranclp_trans)


lemma Ended_step:
  assumes "kq_run c c'" and "pc c = Ended" and "watches_inv (ids_issued c) (watcher c)" and "ids_issued c' + 2 < 2 ^ 64"
  shows "pc c' = Ended \<and> kq_fired (watcher c') = kq_fired (watcher c)
    \<and> fst ` set (m_watches (watcher c)) \<subseteq> fst ` set (m_watches (watcher c'))"
  using assms(1)
proof cases
  case (watch ans cb r st)
  have "ids_issued c + 2 < 2 ^ 64" using watch assms(4) by (auto split: if_splits)
  from assms(3) this watch(3) have "kq_fired st = kq_fired (watcher c)
      \<and> fst ` set (m_watches (watcher c)) \<subseteq> fst ` set (m_watches st)"
    by (cases rule: WatchFile_cases) auto
  with watch assms(2) show ?thesis by simp
qed (use assms(2) in \<open>auto simp: CloseWatch_def Wake_def\<close>)

lemma WatchFile_succeeds:
  assumes "watches_inv n st" and "n + 2 < 2 ^ 64" and "dir_open ans \<noteq> -1" and "dir_armed ans"
  shows "\<exists>h st'. WatchFile ans cb st = (Inr h, st')"
proof -
  obtain w where "dirFd w = dir_open ans" "WatchFile ans cb st = WatchFile_new ans (of_nat (n + 2)) w st"
    by (rule WatchFile_eq [OF assms(1,2)])
  with assms(3,4) show ?thesis
    by (simp add: WatchFile_new_def ArmDir_def kevent_add_def Let_def split: prod.split)
qed


section \<open>Examples\<close>

text \<open>A file is watched and changes; its watch is then closed, or its callback throws, or the
  watcher is destroyed.\<close>

definition sample_idle :: "unit kq_config" where
  "sample_idle = (kq_config_new sample_kq)\<lparr>watcher := handle_unwatches sample_watcher, pc := AtWait, ids_issued := 1\<rparr>"

lemma sample_idle_reachable: "kq_run_reachable sample_idle"
proof -
  let ?c0 = "kq_config_new sample_kq" and ?c1 = "(kq_config_new sample_kq)\<lparr>watcher := sample_watcher, ids_issued := 1\<rparr>"
  have "\<not> m_shutdown sample_kq" "\<not> m_shutdown sample_watcher" by code_simp+
  moreover have "WatchFile sample_answers () sample_kq = (fst (WatchFile sample_answers () sample_kq), sample_watcher)"
    by (simp add: sample_watcher_def)
  ultimately have 1: "kq_run ?c0 ?c1"
    using kq_run.watch [of ?c0 sample_answers "()"] by (simp add: kq_config_new_def sample_answers_def)
  have 2: "kq_run ?c1 (?c1\<lparr>pc := AtDrain\<rparr>)"
    using kq_run.check [of ?c1] \<open>\<not> m_shutdown sample_watcher\<close> by (simp add: kq_config_new_def)
  have 3: "kq_run (?c1\<lparr>pc := AtDrain\<rparr>) sample_idle"
    using kq_run.drain [of "?c1\<lparr>pc := AtDrain\<rparr>"] by (simp add: kq_config_new_def sample_idle_def)
  show ?thesis
    unfolding kq_run_reachable_def
    using sample_kq_created rtranclp.rtrancl_into_rtrancl [of kq_run, OF rtranclp.rtrancl_into_rtrancl
        [of kq_run, OF r_into_rtranclp [of kq_run, OF 1] 2] 3] by blast
qed


text \<open>The watch is closed while the thread waits.\<close>

definition sample_closing :: "unit kq_config" where
  "sample_closing = Wake True (sample_idle\<lparr>watcher := CloseWatch 2 (watcher sample_idle), wakers := 0\<rparr>)"

lemma sample_closing_reachable: "kq_run_reachable sample_closing"
proof -
  have c: "\<not> m_shutdown (watcher sample_idle)" "wakers sample_idle = 0" by code_simp+
  let ?c = "sample_idle\<lparr>watcher := CloseWatch 2 (watcher sample_idle), wakers := 1\<rparr>"
  have "kq_run sample_idle ?c" using kq_run.close_push [OF c(1), of 2] c(2) by simp
  moreover have "kq_run ?c sample_closing"
    using kq_run.wake [of ?c True] by (simp add: sample_closing_def)
  ultimately show ?thesis
    by (intro kq_runs_reachable [OF sample_idle_reachable])
      (rule converse_rtranclp_into_rtranclp [of kq_run], assumption, rule r_into_rtranclp)
qed

theorem no_lost_wakeup_witness: "pc sample_closing = AtWait \<and> can_proceed sample_closing"
proof -
  have c: "wakers sample_closing = 0" "\<not> wake_failed sample_closing" "pc sample_closing = AtWait"
    "m_pendingUnwatches (watcher sample_closing) \<noteq> []"
    by code_simp+
  from no_lost_wakeup [OF sample_closing_reachable c(1,2)] c(3,4) show ?thesis by simp
qed

text \<open>The destructor starts while the thread waits; the thread wakes up and ends.\<close>

definition sample_stopping :: "unit kq_config" where
  "sample_stopping = sample_idle\<lparr>watcher := (watcher sample_idle)\<lparr>m_shutdown := True\<rparr>, wakers := 1\<rparr>"

lemma sample_stopping_reachable: "kq_run_reachable sample_stopping"
proof -
  have c: "\<not> m_shutdown (watcher sample_idle)" "wakers sample_idle = 0" by code_simp+
  from kq_run.shut [OF this] show ?thesis
    unfolding sample_stopping_def
    by (intro kq_runs_reachable [OF sample_idle_reachable] r_into_rtranclp)
qed


text \<open>The file changes, and its callback throws.\<close>

definition sample_thrown :: "unit kq_config" where
  "sample_thrown = sample_idle\<lparr>watcher := (handle_event (VnodeEvent 8 2 [NOTE_WRITE]) (-1, False) 0 (watcher sample_idle))
     \<lparr>kq_fired := [(2, (), ''/etc/birch.toml'')]\<rparr>, pc := Ended\<rparr>"

lemma sample_thrown_reachable: "kq_run_reachable sample_thrown"
proof -
  let ?ev = "VnodeEvent 8 2 [NOTE_WRITE]"
  let ?st = "handle_event ?ev (-1, False) 0 (watcher sample_idle)"
  let ?c1 = "sample_idle\<lparr>pc := AtEvents [(?ev, (-1, False), 0)]\<rparr>"
  let ?c2 = "sample_idle\<lparr>watcher := ?st, pc := AtEvents []\<rparr>"
  have idle: "pc sample_idle = AtWait" "\<not> wake_triggered sample_idle" by code_simp+
  have st: "kq_fired ?st = []" "kq_deadline ?st = Some 50000000"
    "fire_calls (\<lambda>d. d) ?st = [(2, (), ''/etc/birch.toml'')]" by code_simp+
  have "kq_run sample_idle (sample_idle\<lparr>pc := AtEvents [(?ev, (-1, False), 0)], wake_triggered := False\<rparr>)"
    using kq_run.ready [OF idle(1), of "[(?ev, (-1, False), 0)]"] idle(2) by (simp add: kBatch_def)
  moreover have "sample_idle\<lparr>pc := AtEvents [(?ev, (-1, False), 0)], wake_triggered := False\<rparr> = ?c1"
    using idle(2) by (cases sample_idle) simp
  ultimately have 1: "kq_run sample_idle ?c1" by simp
  have 2: "kq_run ?c1 ?c2" using kq_run.event [of ?c1 ?ev "(-1, False)" 0 "[]"] by simp
  have 3: "kq_run ?c2 sample_thrown"
    using kq_run.throws [of ?c2 50000000 50000000 "fire_calls (\<lambda>d. d) ?st" "\<lambda>d. d" 0] st
    by (simp add: sample_thrown_def)
  show ?thesis
    by (rule kq_runs_reachable [OF sample_idle_reachable])
      (rule rtranclp.rtrancl_into_rtrancl [of kq_run, OF rtranclp.rtrancl_into_rtrancl
        [of kq_run, OF r_into_rtranclp [of kq_run, OF 1] 2] 3])
qed


end
