(* ===== verification/Win_Thread.thy ===== *)
theory Win_Thread
  imports Win_Properties
begin

text \<open>
  The thread of the Windows watcher interleaved with its callers. \<open>Win_Watcher\<close> takes a turn
  of \<open>Run\<close> as one step; here it is cut where other threads may come in between: the pending
  unwatches, the test of the shutdown flag, the test for the end, the wait for a packet,
  finding the directory watcher of a completion, collecting its changes and reading again, and
  the callbacks. \<open>CloseWatch\<close> and the destructor are cut before their call of \<open>Wake\<close>, which
  queues a packet: each wake packet is returned by one \<open>GetQueuedCompletionStatus\<close>.

  Collecting the changes of a completion and reading again is one step, although the mutex is
  released in between: a watch added there is not among those just collected, as if it had been
  added afterwards. Callbacks run after the mutex is released, on what \<open>FireDirty\<close> copied under
  it, so a call another thread makes meanwhile is a step before or after.

  An exception a callback throws ends the thread; the lambda in \<open>Create\<close> only logs it.
\<close>

section \<open>A completion in two steps\<close>

text \<open>Finding the directory watcher: the number of bytes if its changes are to be collected,
  \<open>None\<close> if the loop goes on at its top.\<close>

definition locate_completion ::
  "dw_ptr \<Rightarrow> io_result \<Rightarrow> 'cb WinFileWatcher \<Rightarrow> win_fault + nat option \<times> 'cb WinFileWatcher" where
  "locate_completion a res st =
     (let st = completed a res st in
        case win_heap st a of
          None \<Rightarrow> Inl UseAfterFree
        | Some live \<Rightarrow>
            if a \<in> set (win_m_draining st)
            then Inr (None, win_release a (st\<lparr>win_m_draining := remove1 a (win_m_draining st)\<rparr>))
            else if a \<notin> snd ` set (m_dirWatchers st) then Inr (None, st)
            else (case res of IoError e \<Rightarrow> Inr (None, st) | IoOk bytes buf \<Rightarrow> Inr (Some bytes, st)))"

text \<open>With nothing in between, the two steps are the completion of \<open>Win_Watcher\<close>.\<close>

lemma handle_completion_steps:
  "handle_completion lower reissued now a res st =
     (case locate_completion a res st of
        Inl fault \<Rightarrow> Inl fault
      | Inr (None, st) \<Rightarrow> Inr (False, st)
      | Inr (Some bytes, st) \<Rightarrow>
          (case collect_and_reissue lower reissued now a (the (win_heap st a)) bytes st of
             Inl fault \<Rightarrow> Inl fault
           | Inr st \<Rightarrow> Inr (True, st)))"
  by (simp add: handle_completion_def locate_completion_def Let_def split: option.split io_result.split)

section \<open>The steps\<close>

datatype win_pc =
    WAtTop
  | WAtFlag
  | WAtTest
  | WAtWait
  | WAtCollect dw_ptr nat
  | WAtFire
  | WEnded

text \<open>\<open>wt_wakers\<close> counts the calls that have yet to call \<open>Wake\<close>, \<open>wt_packets\<close> the wake packets
  in the port.\<close>

record 'cb win_config =
  wt_watcher :: "'cb WinFileWatcher"
  wt_pc :: win_pc
  wt_packets :: nat
  wt_wakers :: nat
  wt_wake_failed :: bool

definition Win_Wake :: "bool \<Rightarrow> 'cb win_config \<Rightarrow> 'cb win_config" where
  "Win_Wake ok c =
     (if ok then c\<lparr>wt_packets := wt_packets c + 1\<rparr> else c\<lparr>wt_wake_failed := True\<rparr>)"

definition win_config_new :: "'cb WinFileWatcher \<Rightarrow> 'cb win_config" where
  "win_config_new st = \<lparr>wt_watcher = st, wt_pc = WAtTop, wt_packets = 0, wt_wakers = 0, wt_wake_failed = False\<rparr>"

text \<open>The calls \<open>FireDirty\<close> makes once it has released the mutex.\<close>

definition win_fire_calls ::
  "(WinWatchId list \<Rightarrow> WinWatchId list) \<Rightarrow> 'cb WinFileWatcher \<Rightarrow> (WinWatchId \<times> 'cb \<times> wstring) list" where
  "win_fire_calls iter st =
     List.map_filter (\<lambda>i.
         Option.bind (map_of (m_watchLocations st) i) (\<lambda>(dirKey, fileNameKey).
         Option.bind (map_of (m_dirWatchers st) dirKey) (\<lambda>a.
         Option.bind (win_heap st a) (\<lambda>dw.
         map_option (\<lambda>e. (i, e_callback e, reportPath e)) (ForEachEntry i dw)))))
       (iter (win_dirty st))"

lemma Win_FireDirty_calls: "Win_FireDirty iter st = st\<lparr>win_fired := win_fired st @ win_fire_calls iter st\<rparr>"
  by (simp add: Win_FireDirty_def win_fire_calls_def)

inductive win_run :: "(wstring \<Rightarrow> wstring) \<Rightarrow> 'cb win_config \<Rightarrow> 'cb win_config \<Rightarrow> bool" for lower where
  watch: "\<not> win_m_shutdown (wt_watcher c) \<Longrightarrow> win_heap (wt_watcher c) (w_new ans) = None \<Longrightarrow>
     Win_WatchFile lower ans cb (wt_watcher c) = (r, st) \<Longrightarrow> win_run lower c (c\<lparr>wt_watcher := st\<rparr>)"
| close_push: "\<not> win_m_shutdown (wt_watcher c) \<Longrightarrow>
     win_run lower c (c\<lparr>wt_watcher := Win_CloseWatch i (wt_watcher c), wt_wakers := wt_wakers c + 1\<rparr>)"
| wake: "0 < wt_wakers c \<Longrightarrow> win_run lower c (Win_Wake ok (c\<lparr>wt_wakers := wt_wakers c - 1\<rparr>))"
| shut: "\<not> win_m_shutdown (wt_watcher c) \<Longrightarrow> wt_wakers c = 0 \<Longrightarrow>
     win_run lower c (c\<lparr>wt_watcher := win_request_shutdown (wt_watcher c), wt_wakers := 1\<rparr>)"
| drain: "wt_pc c = WAtTop \<Longrightarrow>
     win_run lower c (c\<lparr>wt_watcher := DrainPendingUnwatches (wt_watcher c), wt_pc := WAtFlag\<rparr>)"
| flag: "wt_pc c = WAtFlag \<Longrightarrow>
     win_run lower c (c\<lparr>wt_watcher := begin_shutdown (wt_watcher c), wt_pc := WAtTest\<rparr>)"
| go_on: "wt_pc c = WAtTest \<Longrightarrow> \<not> (shuttingDown (wt_watcher c) \<and> win_m_draining (wt_watcher c) = []) \<Longrightarrow>
     win_run lower c (c\<lparr>wt_pc := WAtWait\<rparr>)"
| leave: "wt_pc c = WAtTest \<Longrightarrow> shuttingDown (wt_watcher c) \<Longrightarrow> win_m_draining (wt_watcher c) = [] \<Longrightarrow>
     win_run lower c (c\<lparr>wt_watcher := (wt_watcher c)\<lparr>win_exited := True\<rparr>, wt_pc := WEnded\<rparr>)"
| packet: "wt_pc c = WAtWait \<Longrightarrow> 0 < wt_packets c \<Longrightarrow>
     win_run lower c (c\<lparr>wt_pc := WAtFire, wt_packets := wt_packets c - 1\<rparr>)"
| timeout: "wt_pc c = WAtWait \<Longrightarrow> win_run lower c (c\<lparr>wt_pc := WAtFire\<rparr>)"
| io: "wt_pc c = WAtWait \<Longrightarrow> a \<in> set (os_reads (win_os (wt_watcher c))) \<Longrightarrow>
     locate_completion a res (wt_watcher c) = Inr (found, st) \<Longrightarrow>
     win_run lower c (c\<lparr>wt_watcher := st,
       wt_pc := (case found of None \<Rightarrow> WAtTop | Some bytes \<Rightarrow> WAtCollect a bytes)\<rparr>)"
| collect: "wt_pc c = WAtCollect a bytes \<Longrightarrow> win_heap (wt_watcher c) a = Some live \<Longrightarrow>
     collect_and_reissue lower reissued now a live bytes (wt_watcher c) = Inr st \<Longrightarrow>
     win_run lower c (c\<lparr>wt_watcher := st, wt_pc := WAtFire\<rparr>)"
| fire: "wt_pc c = WAtFire \<Longrightarrow> mset (iter (win_dirty (wt_watcher c))) = mset (win_dirty (wt_watcher c)) \<Longrightarrow>
     win_run lower c (c\<lparr>wt_watcher := win_fire_if_due iter now (wt_watcher c), wt_pc := WAtTop\<rparr>)"
| throws: "wt_pc c = WAtFire \<Longrightarrow> win_deadline (wt_watcher c) = Some d \<Longrightarrow> d \<le> now \<Longrightarrow>
     calls = win_fire_calls iter (wt_watcher c) \<Longrightarrow> m < length calls \<Longrightarrow>
     win_run lower c (c\<lparr>wt_watcher := (wt_watcher c)\<lparr>win_fired := win_fired (wt_watcher c) @ take (Suc m) calls\<rparr>,
       wt_pc := WEnded\<rparr>)"

inductive_cases win_run_cases: "win_run lower c c'"

definition win_run_reachable :: "(wstring \<Rightarrow> wstring) \<Rightarrow> 'cb win_config \<Rightarrow> bool" where
  "win_run_reachable lower c \<longleftrightarrow>
     (\<exists>iocp st. iocp \<noteq> INVALID_HANDLE_VALUE
        \<and> WinFileWatcher_Create (Some iocp, 0) \<lparr>os_handles = [], os_reads = [], os_cancelled = []\<rparr> = Inr st
        \<and> (win_run lower)\<^sup>*\<^sup>* (win_config_new st) c)"

text \<open>The thread goes on by itself: a packet is there for it, or a timeout is set.\<close>

definition win_can_proceed :: "'cb win_config \<Rightarrow> bool" where
  "win_can_proceed c \<longleftrightarrow>
     wt_pc c \<noteq> WEnded \<and> (wt_pc c = WAtWait \<longrightarrow> 0 < wt_packets c \<or> win_deadline (wt_watcher c) \<noteq> None)"

section \<open>Invariants of the interleaved steps\<close>

text \<open>The fields the callers and the thread share.\<close>

abbreviation same_requests :: "'cb WinFileWatcher \<Rightarrow> 'cb WinFileWatcher \<Rightarrow> bool" where
  "same_requests st st' \<equiv> win_m_shutdown st' = win_m_shutdown st
     \<and> win_m_pendingUnwatches st' = win_m_pendingUnwatches st"

lemma requests_WatchFile: "Win_WatchFile lower ans cb st = (r, st') \<Longrightarrow> same_requests st st'"
  by (auto simp: Win_WatchFile_def Let_def win_register_def upd_dw_def win_release_def
      split: if_splits option.splits prod.splits sum.splits bool.splits)

lemma requests_release: "same_requests st (win_release a st)"
  by (simp add: win_release_def split: option.split)

lemma requests_locate: "locate_completion a res st = Inr (found, st') \<Longrightarrow> same_requests st st'"
  by (auto simp: locate_completion_def completed_def Let_def upd_dw_def requests_release
      split: option.splits io_result.splits if_splits)

lemma requests_retire: "same_requests st (retire_active a st)"
  by (simp add: retire_active_def requests_release split: option.split)

lemma requests_collect:
  "collect_and_reissue lower reissued now a live bytes st = Inr st' \<Longrightarrow> same_requests st st'"
  by (erule collect_and_reissue_cases) (simp_all add: requests_retire)

lemma requests_fire: "same_requests st (win_fire_if_due iter now st)"
  by (simp add: win_fire_if_due_def Win_FireDirty_def split: option.split)

lemma requests_begin: "same_requests st (begin_shutdown st)"
  by (simp add: begin_shutdown_def Let_def)

lemma begin_shutdown_noticed: "win_m_shutdown st \<Longrightarrow> shuttingDown (begin_shutdown st)"
  by (simp add: begin_shutdown_def Let_def)

lemma DrainPendingUnwatches_empty: "win_m_pendingUnwatches (DrainPendingUnwatches st) = []"
  by (simp add: DrainPendingUnwatches_def split: prod.split)

definition win_wake_inv :: "'cb win_config \<Rightarrow> bool" where
  "win_wake_inv c \<longleftrightarrow>
     wt_wake_failed c \<or> 0 < wt_wakers c \<or> 0 < wt_packets c
     \<or> (win_m_pendingUnwatches (wt_watcher c) \<noteq> [] \<longrightarrow> wt_pc c \<notin> {WAtFlag, WAtTest, WAtWait})
       \<and> (win_m_shutdown (wt_watcher c) \<longrightarrow>
            shuttingDown (wt_watcher c) \<or> wt_pc c \<notin> {WAtTest, WAtWait})"

lemma shutting_locate: "locate_completion a res st = Inr (found, st') \<Longrightarrow> shuttingDown st' = shuttingDown st"
  by (auto simp: locate_completion_def Let_def split: option.splits io_result.splits if_splits)

lemma win_run_wake_inv: "win_run lower c c' \<Longrightarrow> win_wake_inv c \<Longrightarrow> win_wake_inv c'"
  by (erule win_run_cases)
    (auto simp: win_wake_inv_def Win_Wake_def Win_CloseWatch_def win_request_shutdown_def
      requests_begin begin_shutdown_noticed DrainPendingUnwatches_empty same_phase_Drain
      dest: requests_WatchFile same_phase_WatchFile requests_locate requests_collect
      split: option.splits)

text \<open>The directory watcher whose changes are about to be collected is active and idle.\<close>

definition collecting_ok :: "'cb win_config \<Rightarrow> bool" where
  "collecting_ok c \<longleftrightarrow>
     (\<forall>a bytes. wt_pc c = WAtCollect a bytes \<longrightarrow>
        a \<in> snd ` set (m_dirWatchers (wt_watcher c)) \<and> a \<notin> set (os_reads (win_os (wt_watcher c))))"

lemma set_remove_added:
  "k \<notin> fst ` set al \<Longrightarrow> AList.delete k (lhm_emplace k v al) = al"
  by (simp add: lhm_emplace_fresh) (induction al; auto)

lemma WatchFile_keeps_idle:
  assumes r: "Win_WatchFile lower ans (cb :: 'a) st = (r, st')" and a: "a \<in> snd ` set (m_dirWatchers st)"
    "a \<notin> set (os_reads (win_os st))" "a \<noteq> w_new ans"
  shows "a \<in> snd ` set (m_dirWatchers st') \<and> a \<notin> set (os_reads (win_os st'))"
proof -
  let ?dir = "if w_parent ans = [] then w_current ans else w_parent ans"
  let ?d = "ToLowerKey lower ?dir"
  consider (none) "w_filename ans = []" | (old) b where "w_filename ans \<noteq> []" "map_of (m_dirWatchers st) ?d = Some b"
    | (err) e os where "w_filename ans \<noteq> []" "map_of (m_dirWatchers st) ?d = None"
        "WinDirWatcher_Open (w_opened ans) (w_associated ans) ?dir (win_os st) = (Inl e :: 'a WinDirWatcher status_or, os)"
    | (new) dw :: "'a WinDirWatcher" and os where "w_filename ans \<noteq> []" "map_of (m_dirWatchers st) ?d = None"
        "WinDirWatcher_Open (w_opened ans) (w_associated ans) ?dir (win_os st) = (Inr dw, os)"
    by (metis not_None_eq sumE surj_pair)
  then show ?thesis
  proof cases
    case none
    with r a show ?thesis by (simp add: Win_WatchFile_def)
  next
    case old
    with r a show ?thesis by (auto simp: Win_WatchFile_def Let_def win_register_def)
  next
    case err
    with r a Open_failed [OF err(3)] show ?thesis by (auto simp: Win_WatchFile_def Let_def)
  next
    case new
    note dw = Open_succeeded [OF new(3)]
    obtain ok os2 where i: "IssueRead (w_issued ans) (w_new ans) dw os = (ok, os2)" by (metis surj_pair)
    have ok: "os2 = (if ok then os\<lparr>os_reads := w_new ans # os_reads os\<rparr> else os)"
      using IssueRead_cases [OF i] dw(1,2) by (simp add: WinDirWatcher_new_def)
    have fresh: "?d \<notin> fst ` set (m_dirWatchers st)" using new(2) by (simp add: map_of_eq_None_iff)
    have reads: "os_reads os = os_reads (win_os st)" using dw(3) by simp
    have "m_dirWatchers st' = (if ok then lhm_emplace ?d (w_new ans) (m_dirWatchers st) else m_dirWatchers st)
        \<and> os_reads (win_os st') = os_reads os2"
      using r new i ok dw set_remove_added [OF fresh, of "w_new ans"]
      by (auto simp: Win_WatchFile_def Let_def win_register_def win_release_def upd_dw_def
          WinDirWatcher_destroy_def os_CloseHandle_def WinDirWatcher_new_def dw_Add_def dw_Remove_def)
    then show ?thesis using a ok reads lhm_emplace_fresh [OF fresh] by simp
  qed
qed

lemma locate_inv:
  assumes "win_inv st" and "a \<in> set (os_reads (win_os st))"
  shows "locate_completion a res st \<noteq> Inl UseAfterFree"
    and "locate_completion a res st = Inr (found, st') \<Longrightarrow> win_inv st'
      \<and> (found \<noteq> None \<longrightarrow> a \<in> snd ` set (m_dirWatchers st') \<and> a \<notin> set (os_reads (win_os st')))"
proof -
  let ?st = "completed a res st"
  note inv = completed_inv(1,2) [OF assms, of res]
  obtain dw where dw: "win_heap ?st a = Some dw" using completed_inv(3) [OF assms] by blast
  then show "locate_completion a res st \<noteq> Inl UseAfterFree"
    by (simp add: locate_completion_def Let_def split: io_result.split)
  show "locate_completion a res st = Inr (found, st') \<Longrightarrow> win_inv st'
      \<and> (found \<noteq> None \<longrightarrow> a \<in> snd ` set (m_dirWatchers st') \<and> a \<notin> set (os_reads (win_os st')))"
    using dw inv win_inv_retire_draining [OF inv]
    by (auto simp: locate_completion_def Let_def split: io_result.splits if_splits)
qed

lemma win_run_inv:
  assumes "win_run lower c c'" and "win_inv (wt_watcher c)" and "collecting_ok c"
  shows "win_inv (wt_watcher c') \<and> collecting_ok c'"
  using assms(1)
proof cases
  case (watch ans cb r st)
  have "w_new ans \<notin> snd ` set (m_dirWatchers (wt_watcher c))"
    by (rule win_inv_unused [OF assms(2) watch(3)])
  then have "collecting_ok c'"
  proof (cases "wt_pc c")
    case (WAtCollect a bytes)
    with assms(3) have a: "a \<in> snd ` set (m_dirWatchers (wt_watcher c))" "a \<notin> set (os_reads (win_os (wt_watcher c)))"
      by (simp_all add: collecting_ok_def)
    with \<open>w_new ans \<notin> _\<close> have "a \<noteq> w_new ans" by blast
    with WatchFile_keeps_idle [OF watch(4) a] watch(1) WAtCollect show ?thesis
      by (simp add: collecting_ok_def)
  qed (simp_all add: watch(1) collecting_ok_def)
  with win_inv_WatchFile [OF assms(2) watch(3,4)] watch(1) show ?thesis by simp
next
  case (io a res found st)
  then show ?thesis
    using locate_inv(2) [OF assms(2) io(3,4)] by (auto simp: collecting_ok_def split: option.split)
next
  case (collect a bytes live reissued now st)
  have "m_dirHandle live \<noteq> INVALID_HANDLE_VALUE"
    using assms(2) collect(3) by (auto simp: win_inv_def heap_ok_def)
  moreover have "a \<notin> set (os_reads (win_os (wt_watcher c)))" "a \<in> snd ` set (m_dirWatchers (wt_watcher c))"
    using assms(3) collect(2) by (simp_all add: collecting_ok_def)
  ultimately have "win_inv st" using collect_and_reissue_inv [OF assms(2)] collect(4) by blast
  then show ?thesis using collect(1) by (simp add: collecting_ok_def)
qed (use assms(2,3) in \<open>simp_all add: collecting_ok_def Win_Wake_def Win_CloseWatch_def win_request_shutdown_def
      win_inv_fields win_inv_fire_if_due win_inv_begin_shutdown win_inv_DrainPendingUnwatches\<close>)

lemma locate_phase:
  "locate_completion a res st = Inr (found, st') \<Longrightarrow> phase_ok st \<Longrightarrow> phase_ok st'"
  by (auto simp: locate_completion_def phase_ok_def Let_def split: option.splits io_result.splits if_splits)

lemma collect_phase:
  assumes "collect_and_reissue lower reissued now a live bytes st = Inr st'" and "phase_ok st"
  shows "phase_ok st'"
proof -
  have "m_dirWatchers st = [] \<Longrightarrow> m_dirWatchers st' = []"
    using assms(1) by (cases rule: collect_and_reissue_cases) (simp_all add: retire_active_def)
  with collect_and_reissue_phase(1,2) [OF assms(1)] assms(2) show ?thesis by (auto simp: phase_ok_def)
qed

lemma begin_shutdown_phase: "phase_ok st \<Longrightarrow> phase_ok (begin_shutdown st)"
  by (auto simp: begin_shutdown_def Let_def phase_ok_def)

lemma Drain_phase: "phase_ok st \<Longrightarrow> phase_ok (DrainPendingUnwatches st)"
  using same_phase_Drain [of st] by (auto simp: phase_ok_def)

lemma win_run_phase: "win_run lower c c' \<Longrightarrow> phase_ok (wt_watcher c) \<Longrightarrow> phase_ok (wt_watcher c')"
proof (induction rule: win_run.induct)
  case (watch c ans cb r st)
  with same_phase_WatchFile [OF watch(3)] show ?case by (auto simp: phase_ok_def)
next
  case (io c a res found st)
  then show ?case using locate_phase by auto
next
  case (collect c a bytes live reissued now st)
  then show ?case using collect_phase by auto
qed (auto simp: Win_Wake_def Win_CloseWatch_def win_request_shutdown_def begin_shutdown_phase Drain_phase,
    auto simp: phase_ok_def)

lemma win_run_reachable_inv:
  assumes "win_run_reachable lower c"
  shows "win_inv (wt_watcher c)" and "collecting_ok c" and "phase_ok (wt_watcher c)" and "win_wake_inv c"
proof -
  obtain iocp st where new: "iocp \<noteq> INVALID_HANDLE_VALUE"
      "WinFileWatcher_Create (Some iocp, 0) \<lparr>os_handles = [], os_reads = [], os_cancelled = []\<rparr> = Inr st"
    and run: "(win_run lower)\<^sup>*\<^sup>* (win_config_new st) c"
    using assms unfolding win_run_reachable_def by blast
  from run have "win_inv (wt_watcher c) \<and> collecting_ok c \<and> phase_ok (wt_watcher c) \<and> win_wake_inv c"
  proof (induction rule: rtranclp_induct)
    case base
    have "phase_ok st" "\<not> win_m_shutdown st" "win_m_pendingUnwatches st = []"
      using new by (auto simp: phase_ok_def WinFileWatcher_Create_def WinFileWatcher_new_def)
    with win_inv_new [OF new(2)] show ?case
      by (simp add: win_config_new_def collecting_ok_def win_wake_inv_def)
  next
    case (step c c')
    then show ?case using win_run_inv win_run_phase win_run_wake_inv by blast
  qed
  then show "win_inv (wt_watcher c)" "collecting_ok c" "phase_ok (wt_watcher c)" "win_wake_inv c" by blast+
qed

lemma win_runs_reachable:
  "win_run_reachable lower c \<Longrightarrow> (win_run lower)\<^sup>*\<^sup>* c c' \<Longrightarrow> win_run_reachable lower c'"
  unfolding win_run_reachable_def by (meson rtranclp_trans)

section \<open>The destructor\<close>

text \<open>After the thread has been joined the destructor closes the port; then the members go, and
  with them the last owner of each directory watcher.\<close>

definition WinFileWatcher_destroy :: "'cb WinFileWatcher \<Rightarrow> 'cb WinFileWatcher" where
  "WinFileWatcher_destroy st =
     fold win_release (win_m_draining st @ map snd (m_dirWatchers st)) (win_after_join st)"

lemma release_after_join: "win_release a (win_after_join st) = win_after_join (win_release a st)"
  by (simp add: win_after_join_def win_release_def WinDirWatcher_destroy_def os_CloseHandle_def remove1_commute
      split: option.split)

lemma releases_after_join: "fold win_release as (win_after_join st) = win_after_join (fold win_release as st)"
  by (induction as arbitrary: st) (simp_all add: release_after_join)

lemma releases_fields:
  "dom (win_heap (fold win_release as st)) = dom (win_heap st) - set as"
  "os_reads (win_os (fold win_release as st)) = os_reads (win_os st)"
  "m_iocp (fold win_release as st) = m_iocp st"
  "heap_ok st \<Longrightarrow> heap_ok (fold win_release as st)"
  by (induction as arbitrary: st) (auto simp: heap_ok_release)

lemma destroy_all:
  assumes "win_inv st" and "m_iocp st \<noteq> INVALID_HANDLE_VALUE"
  shows "dom (win_heap (WinFileWatcher_destroy st)) = {}" and "os_handles (win_os (WinFileWatcher_destroy st)) = []"
    and "os_reads (win_os (WinFileWatcher_destroy st)) = os_reads (win_os st)"
proof -
  let ?as = "win_m_draining st @ map snd (m_dirWatchers st)"
  let ?st = "fold win_release ?as st"
  have destroyed: "WinFileWatcher_destroy st = win_after_join ?st"
    by (simp add: WinFileWatcher_destroy_def releases_after_join [symmetric])
  have dom: "dom (win_heap ?st) = {}"
    using assms(1) by (auto simp: releases_fields win_inv_def own_ok_def)
  have "heap_ok ?st" by (rule releases_fields(4)) (use assms(1) in \<open>simp add: win_inv_def\<close>)
  with dom have "os_handles (win_os ?st) = [m_iocp st]"
    unfolding heap_ok_def releases_fields(3) by (metis image_mset_empty mset_set.empty mset_single_iff)
  with dom assms(2) releases_fields(2) [of ?as st]
  show "dom (win_heap (WinFileWatcher_destroy st)) = {}" "os_handles (win_os (WinFileWatcher_destroy st)) = []"
    "os_reads (win_os (WinFileWatcher_destroy st)) = os_reads (win_os st)"
    by (simp_all add: destroyed win_after_join_def os_CloseHandle_def releases_fields(3))
qed

text \<open>Once the thread has ended it stays ended, and a read in progress stays in progress.\<close>

lemma WatchFile_keeps_reads:
  assumes "Win_WatchFile lower ans cb st = (r, st')"
  shows "set (os_reads (win_os st)) \<subseteq> set (os_reads (win_os st'))"
  using assms
  by (clarsimp simp: Win_WatchFile_def Let_def win_register_def IssueRead_def
      split: if_splits option.splits prod.splits sum.splits bool.splits dest!: Open_reads)

lemma ended_step:
  "win_run lower c c' \<Longrightarrow> wt_pc c = WEnded \<Longrightarrow>
     wt_pc c' = WEnded \<and> set (os_reads (win_os (wt_watcher c))) \<subseteq> set (os_reads (win_os (wt_watcher c')))"
  by (erule win_run_cases)
    (auto simp: Win_Wake_def Win_CloseWatch_def win_request_shutdown_def dest: WatchFile_keeps_reads [THEN subsetD])

lemma ended_steps:
  "(win_run lower)\<^sup>*\<^sup>* c c' \<Longrightarrow> wt_pc c = WEnded \<Longrightarrow>
     wt_pc c' = WEnded \<and> set (os_reads (win_os (wt_watcher c))) \<subseteq> set (os_reads (win_os (wt_watcher c')))"
  by (induction rule: rtranclp_induct) (use ended_step in blast)+

section \<open>Properties\<close>

text \<open>
  C7. However callers and the thread of the Windows watcher interleave, each read in progress
  belongs to a directory watcher that is still alive, so a completion is never delivered to
  freed memory; a draining watcher with a read in progress has been cancelled; the watcher
  whose changes the thread is about to collect is alive, active and without a read; and the
  handles open are exactly the completion port and one for each live directory watcher.
\<close>

theorem win_interleaved_reads_owned:
  assumes "win_run_reachable lower c"
  shows "(\<forall>a \<in> set (os_reads (win_os (wt_watcher c))). win_heap (wt_watcher c) a \<noteq> None
        \<and> locate_completion a res (wt_watcher c) \<noteq> Inl UseAfterFree
        \<and> (a \<in> set (win_m_draining (wt_watcher c)) \<longrightarrow> a \<in> set (os_cancelled (win_os (wt_watcher c)))))
    \<and> (\<forall>a bytes. wt_pc c = WAtCollect a bytes \<longrightarrow> win_heap (wt_watcher c) a \<noteq> None
        \<and> a \<in> snd ` set (m_dirWatchers (wt_watcher c)) \<and> a \<notin> set (os_reads (win_os (wt_watcher c))))
    \<and> mset (os_handles (win_os (wt_watcher c))) =
        add_mset (m_iocp (wt_watcher c))
          (image_mset (dw_handle (wt_watcher c)) (mset_set (dom (win_heap (wt_watcher c)))))"
proof -
  note inv = win_run_reachable_inv(1,2) [OF assms]
  have own: "dom (win_heap (wt_watcher c)) = snd ` set (m_dirWatchers (wt_watcher c)) \<union> set (win_m_draining (wt_watcher c))"
    "set (os_reads (win_os (wt_watcher c))) \<subseteq> dom (win_heap (wt_watcher c))"
    using inv(1) by (simp_all add: win_inv_def own_ok_def)
  moreover have "locate_completion a res (wt_watcher c) \<noteq> Inl UseAfterFree"
    if "a \<in> set (os_reads (win_os (wt_watcher c)))" for a
    by (rule locate_inv(1) [OF inv(1) that])
  moreover have "\<forall>a bytes. wt_pc c = WAtCollect a bytes \<longrightarrow> win_heap (wt_watcher c) a \<noteq> None
        \<and> a \<in> snd ` set (m_dirWatchers (wt_watcher c)) \<and> a \<notin> set (os_reads (win_os (wt_watcher c)))"
    using inv(2) own(1) unfolding collecting_ok_def by blast
  ultimately show ?thesis using inv(1) by (auto simp: win_inv_def own_ok_def heap_ok_def)
qed



section \<open>Witnesses\<close>

text \<open>A file is watched, and the thread waits.\<close>

lemma win_run_reachable_step:
  "win_run_reachable lower c \<Longrightarrow> win_run lower c c' \<Longrightarrow> win_run_reachable lower c'"
  by (rule win_runs_reachable) auto

definition sample_wait :: "unit win_config" where
  "sample_wait = (win_config_new sample_win)\<lparr>wt_pc := WAtWait\<rparr>"

lemma sample_prepared: "DrainPendingUnwatches sample_win = sample_win" "begin_shutdown sample_win = sample_win"
  using sample_win_fields by (simp_all add: DrainPendingUnwatches_def begin_shutdown_def)

lemma sample_wait_reachable: "win_run_reachable sample_lower sample_wait"
proof -
  let ?start = "win_config_new sample_win0" and ?c = "\<lambda>p. (win_config_new sample_win)\<lparr>wt_pc := p\<rparr>"
  have "win_run_reachable sample_lower ?start"
    unfolding win_run_reachable_def
    by (rule exI [of _ 4], rule exI [of _ sample_win0]) (simp add: sample_win0_created INVALID_HANDLE_VALUE_def)
  moreover have "win_run sample_lower ?start (?c WAtTop)"
    using win_run.watch [of ?start sample_win_answers sample_lower "()"] sample_win_result
    by (simp add: win_config_new_def sample_win0_def WinFileWatcher_new_def)
  moreover have "win_run sample_lower (?c WAtTop) (?c WAtFlag)"
    using win_run.drain [of "?c WAtTop" sample_lower] by (simp add: win_config_new_def sample_prepared)
  moreover have "win_run sample_lower (?c WAtFlag) (?c WAtTest)"
    using win_run.flag [of "?c WAtFlag" sample_lower] by (simp add: win_config_new_def sample_prepared)
  moreover have "win_run sample_lower (?c WAtTest) sample_wait"
    using win_run.go_on [of "?c WAtTest" sample_lower] sample_win_fields(7)
    by (simp add: win_config_new_def sample_wait_def)
  ultimately show ?thesis by (blast intro: win_run_reachable_step)
qed

lemma sample_wait_fields:
  "wt_watcher sample_wait = sample_win" "wt_pc sample_wait = WAtWait" "wt_packets sample_wait = 0"
  "wt_wakers sample_wait = 0" "\<not> wt_wake_failed sample_wait"
  by (simp_all add: sample_wait_def win_config_new_def)

theorem win_interleaved_reads_owned_witness:
  "win_heap sample_win 1 \<noteq> None \<and> locate_completion 1 (IoError 5) sample_win \<noteq> Inl UseAfterFree
   \<and> {#12, 4#} = add_mset (m_iocp sample_win)
       (image_mset (dw_handle sample_win) (mset_set (dom (win_heap sample_win))))"
  using win_interleaved_reads_owned [OF sample_wait_reachable, of "IoError 5"] sample_win_fields(1,2)
  by (simp add: sample_wait_fields)

text \<open>The watch is closed while the thread waits.\<close>

definition sample_closing_win :: "unit win_config" where
  "sample_closing_win = sample_wait\<lparr>wt_watcher := Win_CloseWatch 1 sample_win, wt_packets := 1\<rparr>"

lemma sample_closing_win_reachable: "win_run_reachable sample_lower sample_closing_win"
proof -
  let ?c = "sample_wait\<lparr>wt_watcher := Win_CloseWatch 1 sample_win, wt_wakers := 1\<rparr>"
  have "win_run sample_lower sample_wait ?c"
    using win_run.close_push [of sample_wait sample_lower 1] sample_win_fields(5) by (simp add: sample_wait_fields)
  moreover have "win_run sample_lower ?c sample_closing_win"
    using win_run.wake [of ?c sample_lower True]
    by (simp add: Win_Wake_def sample_closing_win_def sample_wait_def win_config_new_def)
  ultimately show ?thesis using sample_wait_reachable by (blast intro: win_run_reachable_step)
qed


text \<open>The buffer of the directory overflows, a read is issued again, and the callback throws.\<close>

definition sample_overflow :: "unit WinFileWatcher" where
  "sample_overflow = sample_win\<lparr>win_heap := [1 \<mapsto> (the (win_heap sample_win 1))\<lparr>m_buffer := []\<rparr>], win_dirty := [1],
     win_deadline := Some win_kCoalesceWindow\<rparr>"

lemma sample_overflow_steps:
  "locate_completion 1 (IoOk 0 []) sample_win
     = Inr (Some 0, sample_overflow\<lparr>win_os := (win_os sample_win)\<lparr>os_reads := []\<rparr>, win_dirty := [], win_deadline := None\<rparr>)"
  "collect_and_reissue sample_lower True 0 1 (the (win_heap sample_overflow 1)) 0
     (sample_overflow\<lparr>win_os := (win_os sample_win)\<lparr>os_reads := []\<rparr>, win_dirty := [], win_deadline := None\<rparr>)
     = Inr sample_overflow"
  "win_fire_calls id sample_overflow = [(1, (), [67, 58, 92, 66, 92, 65])]"
  by (simp_all add: sample_overflow_def sample_win_simps locate_completion_def completed_def os_complete_def
      collect_and_reissue_def CollectDirty_def CollectAllDirty_def dirty_insert_def dw_Add_def
      win_fire_calls_def ForEachEntry_def map_filter_simps)

definition sample_thrown_win :: "unit win_config" where
  "sample_thrown_win = sample_wait\<lparr>wt_watcher := sample_overflow\<lparr>win_fired := [(1, (), [67, 58, 92, 66, 92, 65])]\<rparr>,
     wt_pc := WEnded\<rparr>"

lemma sample_thrown_win_reachable: "win_run_reachable sample_lower sample_thrown_win"
proof -
  let ?read = "sample_overflow\<lparr>win_os := (win_os sample_win)\<lparr>os_reads := []\<rparr>, win_dirty := [], win_deadline := None\<rparr>"
  let ?located = "sample_wait\<lparr>wt_watcher := ?read, wt_pc := WAtCollect 1 0\<rparr>"
  let ?collected = "sample_wait\<lparr>wt_watcher := sample_overflow, wt_pc := WAtFire\<rparr>"
  have "win_run sample_lower sample_wait ?located"
    using win_run.io [of sample_wait 1 "IoOk 0 []" "Some 0" ?read sample_lower] sample_overflow_steps(1)
      sample_win_fields(1) by (simp add: sample_wait_fields)
  moreover have "win_run sample_lower ?located ?collected"
    using win_run.collect [of ?located 1 0 "the (win_heap sample_overflow 1)" sample_lower True 0 sample_overflow]
      sample_overflow_steps(2) by (simp add: sample_overflow_def)
  moreover have "win_run sample_lower ?collected sample_thrown_win"
    using win_run.throws [of ?collected win_kCoalesceWindow win_kCoalesceWindow _ id 0 sample_lower] sample_overflow_steps(3)
    by (simp add: sample_thrown_win_def sample_overflow_def sample_win_simps)
  ultimately show ?thesis using sample_wait_reachable by (blast intro: win_run_reachable_step)
qed


end
