(* ===== verification/Unit_Tests.thy ===== *)
theory Unit_Tests
  imports Protocol_Properties Irc_State Observable_Subject
begin

text \<open>
  The unit tests the repository keeps beside the parser (\<open>server/MessageParserTest.cc\<close>),
  the message (\<open>irc/MessageTest.cc\<close>), the channel names (\<open>server/ChannelTest.cc\<close>) and the
  observer list (\<open>util/ObservableTest.cc\<close>), as definitions over the model: a test is a
  truth value, the conjunction of its expectations, and the fixture is a record threaded
  through its calls. The theorems show that the model passes every one of them. For the
  parser that holds on every platform, whatever its \<open>char\<close> and its moved-from strings are;
  of the address parser only its answers for five texts are needed.
\<close>

section \<open>The fixture of the parser tests\<close>

text \<open>
  \<open>Parse\<close> of the fixture clears the message, resets the parser and keeps the outcome,
  which it also returns. The member \<open>state\<close> starts uninitialized, and no test reads it before
  \<open>Parse\<close> has set it; the model starts it at an arbitrary enumerator.
\<close>

record ParserTest =
  t_message :: Message
  t_parser :: MessageParser
  t_state :: ParseState

definition ParserTest_new :: ParserTest where
  "ParserTest_new = \<lparr>t_message = empty_message, t_parser = MessageParser_init, t_state = Incomplete\<rparr>"

definition ParserTest_Parse :: "parser_env \<Rightarrow> string \<Rightarrow> ParserTest \<Rightarrow> ParseState \<times> ParserTest" where
  "ParserTest_Parse env txt t =
     (case Parse env empty_message txt (Reset (t_parser t)) of
        (st, _, p, m) \<Rightarrow> (st, t\<lparr>t_message := m, t_parser := p, t_state := st\<rparr>))"

text \<open>
  A body that is a sequence of expectations on \<open>Parse\<close>: each runs on the fixture the one
  before has left, and a failing one does not stop the rest.
\<close>

fun expect_all :: "parser_env \<Rightarrow> (ParseState \<times> string) list \<Rightarrow> ParserTest \<Rightarrow> bool" where
  "expect_all env [] t = True"
| "expect_all env ((st, txt) # rest) t =
     (case ParserTest_Parse env txt t of (st', t') \<Rightarrow> st' = st \<and> expect_all env rest t')"

text \<open>A body that parses once and then looks at the message.\<close>

definition expect_message :: "parser_env \<Rightarrow> string \<Rightarrow> (Message \<Rightarrow> bool) \<Rightarrow> bool" where
  "expect_message env txt P =
     (case ParserTest_Parse env txt ParserTest_new of (st, t) \<Rightarrow> st = Complete \<and> P (t_message t))"

text \<open>\<open>tags[key]\<close> on the test's copy of the tags: a missing key reads as the empty string.\<close>

definition tag_at :: "Message \<Rightarrow> string \<Rightarrow> string" where
  "tag_at m key = (case map_of (m_tags m) key of None \<Rightarrow> [] | Some v \<Rightarrow> v)"

abbreviation crlf :: string where "crlf \<equiv> [CR, LF]"

section \<open>MessageParserTest.cc\<close>

definition AllowsSimpleCommandWithNoParams :: "parser_env \<Rightarrow> bool" where
  "AllowsSimpleCommandWithNoParams env =
     expect_message env (''LIST'' @ crlf) (\<lambda>m. m_command m = ''LIST'')"

definition MessagesAreTerminatedWithCrLf :: "parser_env \<Rightarrow> bool" where
  "MessagesAreTerminatedWithCrLf env = expect_all env
     [(Incomplete, ''LIST''), (Incomplete, ''LIST'' @ [CR]), (Complete, ''LIST'' @ crlf),
      (Invalid, ''LIST'' @ [LF])] ParserTest_new"

definition MessagesCanHavePrefixes :: "parser_env \<Rightarrow> bool" where
  "MessagesCanHavePrefixes env =
     expect_message env ('':notben!ben@bendb.com LIST'' @ crlf) (\<lambda>m. m_prefix m = ''notben!ben@bendb.com'')"

definition PrefixCanBeHostname :: "parser_env \<Rightarrow> bool" where
  "PrefixCanBeHostname env =
     expect_message env ('':birch.bendb.com LIST'' @ crlf) (\<lambda>m. m_prefix m = ''birch.bendb.com'')"

text \<open>The nickname made of the nine special characters; the eighth is the backslash.\<close>

abbreviation special_nick :: string where "special_nick \<equiv> ''[]{}|`_'' @ [CHR 0x5C] @ ''^''"

definition PrefixCanBeBareNickname :: "parser_env \<Rightarrow> bool" where
  "PrefixCanBeBareNickname env = expect_all env
     [(Complete, '':ben LIST'' @ crlf), (Complete, '':'' @ special_nick @ ''@foo LIST'' @ crlf)]
     ParserTest_new"

definition ParseNickAtHostname :: "parser_env \<Rightarrow> bool" where
  "ParseNickAtHostname env = expect_all env
     [(Complete, '':'' @ special_nick @ ''@bendb.com LIST'' @ crlf),
      (Invalid, '':ben@-bendb.com LIST'' @ crlf),
      (Invalid, '':ben@bendb..com LIST'' @ crlf),
      (Invalid, '':ben@bendb.com. LIST'' @ crlf),
      (Invalid, '':abcdefghij@bendb.com LIST'' @ crlf),
      (Invalid, '':0ben@bendb.com LIST'' @ crlf),
      (Invalid, '':-ben@bendb.com LIST'' @ crlf),
      (Complete, '':ben@127.0.0.1 LIST'' @ crlf),
      (Complete, '':ben@::1 LIST'' @ crlf)] ParserTest_new"

definition ParseNickAtIPAddress :: "parser_env \<Rightarrow> bool" where
  "ParseNickAtIPAddress env = expect_all env
     [(Complete, '':ben@127.0.0.1 LIST'' @ crlf),
      (Complete, '':ben@::1 LIST'' @ crlf),
      (Complete, '':ben@2001:0db8:85a3:0000:0000:8a2e:0370:7334 LIST'' @ crlf)] ParserTest_new"

definition ParseNickAndUserAtHostname :: "parser_env \<Rightarrow> bool" where
  "ParseNickAndUserAtHostname env = expect_all env
     [(Complete, '':ben!notben@bendb.com LIST'' @ crlf),
      (Invalid, '':ben!not'' @ [CR] @ ''ben@bendb.com LIST'' @ crlf),
      (Invalid, '':ben!not'' @ [LF] @ ''ben@bendb.com LIST'' @ crlf),
      (Invalid, '':ben!not ben@bendb.com LIST'' @ crlf),
      (Invalid, '':ben!not@ben@bendb.com LIST'' @ crlf),
      (Invalid, '':!notben@bendb.com LIST'' @ crlf),
      (Invalid, '':ben!notben LIST'' @ crlf)] ParserTest_new"

definition PrefixCanBeIPv4 :: "parser_env \<Rightarrow> bool" where
  "PrefixCanBeIPv4 env =
     expect_message env ('':127.0.0.1 LIST'' @ crlf) (\<lambda>m. m_prefix m = ''127.0.0.1'')"

definition CommandWithSpaceAfterName :: "parser_env \<Rightarrow> bool" where
  "CommandWithSpaceAfterName env =
     expect_message env (''LIST '' @ crlf) (\<lambda>m. m_command m = ''LIST'' \<and> length (m_params m) = 0)"

definition CommandWithSpaceAfterNameAndParam :: "parser_env \<Rightarrow> bool" where
  "CommandWithSpaceAfterNameAndParam env = expect_message env (''LIST foo '' @ crlf)
     (\<lambda>m. m_command m = ''LIST'' \<and> length (m_params m) = 1 \<and> m_params m ! 0 = ''foo'')"

definition CommandWithSeveralSpacesAfterName :: "parser_env \<Rightarrow> bool" where
  "CommandWithSeveralSpacesAfterName env = expect_message env (''LIST foo bar    '' @ crlf)
     (\<lambda>m. m_command m = ''LIST'' \<and> length (m_params m) = 2
        \<and> m_params m ! 0 = ''foo'' \<and> m_params m ! 1 = ''bar'')"

definition CommandWithTags :: "parser_env \<Rightarrow> bool" where
  "CommandWithTags env = expect_message env (''@foo=bar;baz=qux LIST'' @ crlf)
     (\<lambda>m. m_command m = ''LIST'' \<and> length (m_params m) = 0 \<and> length (m_tags m) = 2
        \<and> tag_at m ''foo'' = ''bar'' \<and> tag_at m ''baz'' = ''qux'')"

definition CommandWithEmptyTagValue :: "parser_env \<Rightarrow> bool" where
  "CommandWithEmptyTagValue env = expect_message env (''@foo=;baz=qux LIST'' @ crlf)
     (\<lambda>m. m_command m = ''LIST'' \<and> length (m_params m) = 0 \<and> length (m_tags m) = 2
        \<and> tag_at m ''foo'' = '''' \<and> tag_at m ''baz'' = ''qux'')"

definition CommandWithClientOnlyTag :: "parser_env \<Rightarrow> bool" where
  "CommandWithClientOnlyTag env = expect_message env (''@+foo=bar LIST'' @ crlf)
     (\<lambda>m. m_command m = ''LIST'' \<and> length (m_params m) = 0 \<and> length (m_tags m) = 1
        \<and> tag_at m ''+foo'' = ''bar'')"

text \<open>The file of tests: each starts from a fresh fixture.\<close>

definition MessageParserTest :: "(parser_env \<Rightarrow> bool) list" where
  "MessageParserTest =
     [AllowsSimpleCommandWithNoParams, MessagesAreTerminatedWithCrLf, MessagesCanHavePrefixes,
      PrefixCanBeHostname, PrefixCanBeBareNickname, ParseNickAtHostname, ParseNickAtIPAddress,
      ParseNickAndUserAtHostname, PrefixCanBeIPv4, CommandWithSpaceAfterName,
      CommandWithSpaceAfterNameAndParam, CommandWithSeveralSpacesAfterName, CommandWithTags,
      CommandWithEmptyTagValue, CommandWithClientOnlyTag]"

section \<open>The parser passes its tests\<close>

text \<open>
  What the tests need of \<open>asio::ip::make_address\<close>: it reads the two IPv6 addresses and
  refuses three texts that are no addresses.
\<close>

definition reads_test_addresses :: "(string \<Rightarrow> bool) \<Rightarrow> bool" where
  "reads_test_addresses addr \<longleftrightarrow>
     addr ''::1'' \<and> addr ''2001:0db8:85a3:0000:0000:8a2e:0370:7334''
     \<and> \<not> addr ''-bendb.com'' \<and> \<not> addr ''bendb..com'' \<and> \<not> addr ''bendb.com.''"

text \<open>The equations that run the parser on a literal.\<close>

lemmas run_parser = expect_message_def ParserTest_Parse_def ParserTest_new_def Reset_def
  MessageParser_init_def Consume_def consume_defs message_ops char_class byte_simps
  IsValidPrefix_def IsValidHostname_def IsInternetAddress_def prefix_scan_defs

lemma plain_tests_pass:
  "AllowsSimpleCommandWithNoParams env" "MessagesAreTerminatedWithCrLf env"
  "MessagesCanHavePrefixes env" "PrefixCanBeHostname env" "PrefixCanBeBareNickname env"
  "ParseNickAndUserAtHostname env" "PrefixCanBeIPv4 env" "CommandWithSpaceAfterName env"
  "CommandWithSpaceAfterNameAndParam env" "CommandWithSeveralSpacesAfterName env"
  by (simp_all add: AllowsSimpleCommandWithNoParams_def MessagesAreTerminatedWithCrLf_def
      MessagesCanHavePrefixes_def PrefixCanBeHostname_def PrefixCanBeBareNickname_def
      ParseNickAndUserAtHostname_def PrefixCanBeIPv4_def CommandWithSpaceAfterName_def
      CommandWithSpaceAfterNameAndParam_def CommandWithSeveralSpacesAfterName_def run_parser
      split del: if_split)

lemma address_tests_pass:
  assumes "reads_test_addresses (make_address env)"
  shows "ParseNickAtHostname env" "ParseNickAtIPAddress env"
  using assms by (simp_all add: ParseNickAtHostname_def ParseNickAtIPAddress_def
      reads_test_addresses_def run_parser split del: if_split)

lemma test_keys_ok: "key_ok ''foo''" "key_ok ''baz''" "key_ok ''+foo''"
  by code_simp+

lemma tag_tests_pass:
  assumes "str_split (str_split_max env)"
  shows "CommandWithTags env" "CommandWithEmptyTagValue env" "CommandWithClientOnlyTag env"
  using
    add_split_tag_eq [OF assms test_keys_ok(1), of "''bar''"]
    add_split_tag_eq [OF assms test_keys_ok(1), of "[]"]
    add_split_tag_eq [OF assms test_keys_ok(2), of "''qux''"]
    add_split_tag_eq [OF assms test_keys_ok(3), of "''bar''"]
  by (simp_all add: CommandWithTags_def CommandWithEmptyTagValue_def CommandWithClientOnlyTag_def
      run_parser tag_at_def lhm_assign_def split del: if_split)

section \<open>MessageTest.cc\<close>

definition EmptyMessage :: bool where
  "EmptyMessage \<longleftrightarrow>
     message_to_string (Build Builder) = ''Message(prefix=, command=, params=[], tags={})''"

definition PrefixOnly :: bool where
  "PrefixOnly \<longleftrightarrow>
     message_to_string (Build (WithPrefix ''irc.example.com'' Builder))
       = ''Message(prefix=irc.example.com, command=, params=[], tags={})''"

definition CommandOnly :: bool where
  "CommandOnly \<longleftrightarrow>
     message_to_string (Build (WithCommand ''PING'' Builder))
       = ''Message(prefix=, command=PING, params=[], tags={})''"

definition SingleParam :: bool where
  "SingleParam \<longleftrightarrow>
     message_to_string (Build (WithParam ''#birch'' (WithCommand ''JOIN'' Builder)))
       = ''Message(prefix=, command=JOIN, params=[#birch], tags={})''"

definition MultipleParams :: bool where
  "MultipleParams \<longleftrightarrow>
     message_to_string
       (Build (WithParam ''hello world'' (WithParam ''#birch'' (WithCommand ''PRIVMSG'' Builder))))
       = ''Message(prefix=, command=PRIVMSG, params=[#birch, hello world], tags={})''"

definition FullMessage :: bool where
  "FullMessage \<longleftrightarrow>
     message_to_string
       (Build (WithParam ''hi there'' (WithParam ''#birch''
         (WithCommand ''PRIVMSG'' (WithPrefix ''nick!user@host'' Builder)))))
       = ''Message(prefix=nick!user@host, command=PRIVMSG, params=[#birch, hi there], tags={})''"

text \<open>
  The literals passed to \<open>WithTag\<close> become temporaries, which the overload that takes
  rvalues binds to.
\<close>

definition SingleTag :: bool where
  "SingleTag \<longleftrightarrow>
     message_to_string
       (Build (WithTag_rvalue ''time'' ''2018-01-01T00:00:00.000Z'' (WithCommand ''PING'' Builder)))
       = ''Message(prefix=, command=PING, params=[], tags={time=2018-01-01T00:00:00.000Z})''"

definition MultipleTagsPreserveInsertionOrder :: bool where
  "MultipleTagsPreserveInsertionOrder \<longleftrightarrow>
     message_to_string
       (Build (WithTag_rvalue ''time'' ''2018-01-01T00:00:00.000Z''
         (WithTag_rvalue ''account'' ''alice'' (WithCommand ''PRIVMSG'' Builder))))
       = ''Message(prefix=, command=PRIVMSG, params=[], tags={account=alice, time=2018-01-01T00:00:00.000Z})''"

definition MessageToString :: "bool list" where
  "MessageToString = [EmptyMessage, PrefixOnly, CommandOnly, SingleParam, MultipleParams, FullMessage,
     SingleTag, MultipleTagsPreserveInsertionOrder]"

section \<open>ChannelTest.cc\<close>

definition MinimumLengthEnforced :: bool where
  "MinimumLengthEnforced \<longleftrightarrow> \<not> IsValidChannelName ''#'' \<and> IsValidChannelName ''#a''"

definition MaximumLengthEnforced :: bool where
  "MaximumLengthEnforced \<longleftrightarrow>
     (let valid = ''#'' @ replicate 49 (CHR ''x''); invalid = valid @ ''x''
      in IsValidChannelName valid \<and> \<not> IsValidChannelName invalid)"

definition ChannelPrefixValidation :: bool where
  "ChannelPrefixValidation \<longleftrightarrow>
     \<not> IsValidChannelName ''chan''
     \<and> IsValidChannelName ''#chan'' \<and> IsValidChannelName ''!chan''
     \<and> IsValidChannelName ''+chan'' \<and> IsValidChannelName ''&chan''
     \<and> \<not> IsValidChannelName ''$chan''"

definition ChannelNames :: "bool list" where
  "ChannelNames = [MinimumLengthEnforced, MaximumLengthEnforced, ChannelPrefixValidation]"

section \<open>ObservableTest.cc\<close>

text \<open>An observer counts its calls; the counters are a function of the observer's name.\<close>

definition BasicFunctionalityWorks :: "'o \<Rightarrow> bool" where
  "BasicFunctionalityWorks obs \<longleftrightarrow>
     (let alive = (\<lambda>o'. o' = obs);
          subject = AddObserver alive obs Observable_init;
          calls = snd (Notify alive (\<lambda>o' calls. calls(o' := calls o' + 1)) subject (\<lambda>_. 0 :: int))
      in calls obs = 1)"

section \<open>The tests pass\<close>

lemma message_tests_pass: "list_all (\<lambda>b. b) MessageToString"
  by code_simp

lemma channel_tests_pass: "list_all (\<lambda>b. b) ChannelNames"
  by code_simp

lemma observable_test_passes: "BasicFunctionalityWorks obs"
  by (simp add: BasicFunctionalityWorks_def observable_defs)



end
