(* ===== verification/Reply_Codes.thy ===== *)
theory Reply_Codes
  imports Protocol_Properties
begin

text \<open>
  The numeric replies of the protocol, \<open>server/Status.h\<close>, and what the parser and the
  serializer make of a message that carries one. No code of the repository sends a numeric
  reply yet; the text of a code is that of the protocol, three decimal digits.
\<close>

section \<open>Codes\<close>

datatype ResponseStatus =
    RPL_WELCOME | RPL_YOURHOST | RPL_CREATED | RPL_MYINFO
  | RPL_BOUNCE | RPL_TRACELINK | RPL_TRACECONNECTING | RPL_TRACEHANDSHAKE
  | RPL_TRACEUNKNOWN | RPL_TRACEOPERATOR | RPL_TRACEUSER | RPL_TRACESERVER
  | RPL_TRACESERVICE | RPL_TRACENEWTYPE | RPL_TRACECLASS | RPL_TRACERECONNECT
  | RPL_TRACELOG | RPL_TRACEEND | RPL_STATSLINKINFO | RPL_STATSCOMMANDS
  | RPL_ENDOFSTATS | RPL_STATSUPTIME | RPL_STATSOLINE | RPL_UMODEIS
  | RPL_SERVLIST | RPL_SERVLISTEND | RPL_LUSERCLIENT | RPL_LUSEROP
  | RPL_LUSERUNKNOWN | RPL_LUSERCHANNELS | RPL_USERNAME | RPL_ADMINME
  | RPL_ADMINLOC1 | RPL_ADMINLOC2 | RPL_ADMINEMAIL | RPL_TRYAGAIN
  | ERR_NOSUCHNICK | ERR_NOSUCHSERVER | ERR_NOSUCHCHANNEL | ERR_CANNOTSENDTOCHAN
  | ERR_TOOMANYCHANNELS | ERR_WASNOSUCHNICK | ERR_TOOMANYTARGETS | ERR_NOSUCHSERVICE
  | ERR_NOORIGIN | ERR_NORECIPIENT | ERR_NOTEXTTOSEND | ERR_NOTOPLEVEL
  | ERR_WILDTOPLEVEL | ERR_BADMASK

primrec code :: "ResponseStatus \<Rightarrow> 16 word" where
  "code RPL_WELCOME = 1"
| "code RPL_YOURHOST = 2"
| "code RPL_CREATED = 3"
| "code RPL_MYINFO = 4"
| "code RPL_BOUNCE = 5"
| "code RPL_TRACELINK = 200"
| "code RPL_TRACECONNECTING = 201"
| "code RPL_TRACEHANDSHAKE = 202"
| "code RPL_TRACEUNKNOWN = 203"
| "code RPL_TRACEOPERATOR = 204"
| "code RPL_TRACEUSER = 205"
| "code RPL_TRACESERVER = 206"
| "code RPL_TRACESERVICE = 207"
| "code RPL_TRACENEWTYPE = 208"
| "code RPL_TRACECLASS = 209"
| "code RPL_TRACERECONNECT = 210"
| "code RPL_TRACELOG = 261"
| "code RPL_TRACEEND = 262"
| "code RPL_STATSLINKINFO = 211"
| "code RPL_STATSCOMMANDS = 212"
| "code RPL_ENDOFSTATS = 219"
| "code RPL_STATSUPTIME = 242"
| "code RPL_STATSOLINE = 243"
| "code RPL_UMODEIS = 221"
| "code RPL_SERVLIST = 234"
| "code RPL_SERVLISTEND = 235"
| "code RPL_LUSERCLIENT = 251"
| "code RPL_LUSEROP = 252"
| "code RPL_LUSERUNKNOWN = 253"
| "code RPL_LUSERCHANNELS = 254"
| "code RPL_USERNAME = 255"
| "code RPL_ADMINME = 256"
| "code RPL_ADMINLOC1 = 257"
| "code RPL_ADMINLOC2 = 258"
| "code RPL_ADMINEMAIL = 259"
| "code RPL_TRYAGAIN = 263"
| "code ERR_NOSUCHNICK = 401"
| "code ERR_NOSUCHSERVER = 402"
| "code ERR_NOSUCHCHANNEL = 403"
| "code ERR_CANNOTSENDTOCHAN = 404"
| "code ERR_TOOMANYCHANNELS = 405"
| "code ERR_WASNOSUCHNICK = 406"
| "code ERR_TOOMANYTARGETS = 407"
| "code ERR_NOSUCHSERVICE = 408"
| "code ERR_NOORIGIN = 409"
| "code ERR_NORECIPIENT = 411"
| "code ERR_NOTEXTTOSEND = 412"
| "code ERR_NOTOPLEVEL = 413"
| "code ERR_WILDTOPLEVEL = 414"
| "code ERR_BADMASK = 415"

definition all_statuses :: "ResponseStatus list" where
  "all_statuses =
     [RPL_WELCOME, RPL_YOURHOST, RPL_CREATED, RPL_MYINFO,
      RPL_BOUNCE, RPL_TRACELINK, RPL_TRACECONNECTING, RPL_TRACEHANDSHAKE,
      RPL_TRACEUNKNOWN, RPL_TRACEOPERATOR, RPL_TRACEUSER, RPL_TRACESERVER,
      RPL_TRACESERVICE, RPL_TRACENEWTYPE, RPL_TRACECLASS, RPL_TRACERECONNECT,
      RPL_TRACELOG, RPL_TRACEEND, RPL_STATSLINKINFO, RPL_STATSCOMMANDS,
      RPL_ENDOFSTATS, RPL_STATSUPTIME, RPL_STATSOLINE, RPL_UMODEIS,
      RPL_SERVLIST, RPL_SERVLISTEND, RPL_LUSERCLIENT, RPL_LUSEROP,
      RPL_LUSERUNKNOWN, RPL_LUSERCHANNELS, RPL_USERNAME, RPL_ADMINME,
      RPL_ADMINLOC1, RPL_ADMINLOC2, RPL_ADMINEMAIL, RPL_TRYAGAIN,
      ERR_NOSUCHNICK, ERR_NOSUCHSERVER, ERR_NOSUCHCHANNEL, ERR_CANNOTSENDTOCHAN,
      ERR_TOOMANYCHANNELS, ERR_WASNOSUCHNICK, ERR_TOOMANYTARGETS, ERR_NOSUCHSERVICE,
      ERR_NOORIGIN, ERR_NORECIPIENT, ERR_NOTEXTTOSEND, ERR_NOTOPLEVEL,
      ERR_WILDTOPLEVEL, ERR_BADMASK]"

lemma in_all_statuses: "s \<in> set all_statuses"
  by (cases s) (simp_all add: all_statuses_def)

lemma code_inj: "code s = code t \<longleftrightarrow> s = t"
proof -
  have "distinct (map code all_statuses)" by code_simp
  then show ?thesis using in_all_statuses by (auto simp: distinct_map inj_on_def)
qed

section \<open>On the wire\<close>

definition digit :: "nat \<Rightarrow> char" where
  "digit n = char_of (48 + n mod 10)"

definition reply_command :: "ResponseStatus \<Rightarrow> string" where
  "reply_command s = (let n = unat (code s) in [digit (n div 100), digit (n div 10), digit n])"

lemma digit_ok: "IsDigit (digit n)"
  by (simp add: IsDigit_def digit_def in_range_def)

lemma digit_value: "of_char (digit n) = 48 + n mod 10"
  by (simp add: digit_def)

lemma reply_command_ok: "command_ok (reply_command s)"
  by (simp add: command_ok_def reply_command_def digit_ok Let_def)

lemma code_bound: "unat (code s) < 1000"
proof -
  have "list_all (\<lambda>s. unat (code s) < 1000) all_statuses" by code_simp
  then show ?thesis using in_all_statuses by (auto simp: list_all_iff)
qed

text \<open>The digits give the code back.\<close>

definition command_code :: "string \<Rightarrow> nat" where
  "command_code cs = foldl (\<lambda>n c. 10 * n + (of_char c - 48)) 0 cs"

lemma command_code_reply: "command_code (reply_command s) = unat (code s)"
proof -
  have "n = 10 * (10 * (n div 100 mod 10) + n div 10 mod 10) + n mod 10" if "n < 1000" for n :: nat
  proof -
    have "n div 100 = n div 10 div 10" "n div 100 < 10" using that by (simp_all add: div_mult2_eq [symmetric])
    then have "n div 100 mod 10 = n div 10 div 10" by simp
    then show ?thesis using div_mult_mod_eq [of n 10] div_mult_mod_eq [of "n div 10" 10] by (metis mult.commute)
  qed
  moreover have "unat (code s) div 100 mod 10 = unat (code s) div 100" using code_bound [of s] by simp
  ultimately show ?thesis
    using code_bound [of s] by (simp add: command_code_def reply_command_def digit_value Let_def)
qed



end
