(* ===== verification/Spec2Isabelle.thy ===== *)
theory Spec2Isabelle
  imports Protocol_Properties Birch_Main Irc_State Win_Properties File_Watchers
    Kqueue_Recovery Kqueue_Thread Win_Thread Unit_Tests Reply_Codes
begin

text \<open>
  \<^bold>\<open>birch\<close>, an IRC server in C++20 over asio, abseil and toml++.

  \<^bold>\<open>The program.\<close> \<open>main.cc\<close> starts the platform's file watcher (\<open>util/\<close>), opens the
  configuration file as a watched source (\<open>config/FileConfigDataSource\<close>), reads it as TOML
  (\<open>config/TomlConfig\<close>, with paths from \<open>config/ConfigPath\<close>), takes the server's settings
  from it and runs the server (\<open>server/Server.cc\<close>). The server accepts clients and keeps one
  \<open>AsioConnection\<close> for each (\<open>server/AsioConnection\<close>). A connection reads bytes, feeds them
  to the message parser (\<open>server/MessageParser\<close>), tells its observers (\<open>util/Observable.h\<close>)
  of complete messages (\<open>irc/Message\<close>), and writes queued responses through the serializer
  (\<open>server/MessageSerializer\<close>). Sessions, channels and capabilities (\<open>irc/\<close>) are the
  beginning of the IRC layer; \<open>server/SessionConnectionObserver\<close> ties a session to a
  connection. The repository is at an early stage: several classes are declared and not
  implemented.

  \<^bold>\<open>The theories\<close>, in the order in which they build on each other.

  \<^item> \<open>Birch_Prelude\<close>: bytes and the signedness of \<open>char\<close>, status values, insertion-ordered
    maps, splitting and joining, and the lemmas the components share; the locale \<open>str_split\<close>
    is the documented behaviour of abseil's \<open>StrSplit\<close> with a limit.
  \<^item> \<open>Irc_Message\<close>: \<open>Message\<close> and \<open>MessageBuilder\<close>.
  \<^item> \<open>Message_Parser\<close>: the character classes, prefix and host validation, and \<open>Consume\<close>, one
    definition per parser state; well-formed messages and the parser's invariant.
    \<open>Prefix_Grammar\<close>: the grammar the prefix scanner accepts.
  \<^item> \<open>Message_Serializer\<close>: the measuring and the writing sink, both instances of the locale
    \<open>byte_sink\<close>, and \<open>SerializeMessage\<close> over any sink. \<open>Wire_Roundtrip\<close>: what the parser
    makes of a serialized message. \<open>Protocol_Properties\<close>: the properties of the three.
  \<^item> \<open>Observable_Subject\<close>: the list of weak observers; the locale \<open>subject\<close> is what
    connections and sessions rely on.
  \<^item> \<open>Asio_Connection\<close>: a connection as a record and its coroutines as turns between
    suspension points, composed by the step relation \<open>conn_step\<close>.
  \<^item> \<open>Config_Path\<close>, \<open>Toml_Config\<close>, \<open>Server_Config\<close>: paths, the converted TOML document with
    the cache of nodes on a heap, and the server's settings; the locale \<open>config_provider\<close> is
    what the settings need of a configuration, interpreted on the TOML one.
  \<^item> \<open>Irc_Server\<close>: the server with its map of connections, accept and signal loops and
    strands as queues; \<open>server_step\<close> interleaves the handlers of any number of workers.
  \<^item> \<open>Kqueue_Watcher\<close>: the kqueue watcher with its descriptors and coalescing of changes;
    \<open>Kqueue_Recovery\<close>: what its watches are registered for, also when a file is replaced;
    \<open>Kqueue_Thread\<close>: its thread and the callers interleaved wherever the mutex is free.
    \<open>Win_Watcher\<close>, \<open>Win_Invariant\<close>, \<open>Win_Properties\<close>: the Windows watcher, its overlapped
    reads and their completions, a turn of its thread being one step; \<open>Win_Thread\<close>: its thread
    and the callers interleaved. \<open>File_Watchers\<close>: the contract of \<open>IFileWatcher\<close> as the locale
    \<open>file_watcher\<close>, which both implement.
  \<^item> \<open>Birch_Main\<close>: the global watcher, the no-op and inotify watchers, the configuration file
    source and \<open>main\<close>. \<open>Irc_State\<close>: capabilities, channels, sessions and the adapter.
  \<^item> \<open>Unit_Tests\<close>: the repository's tests of the parser, the message, the channel names and the
    observer list, as definitions over the model. \<open>Reply_Codes\<close>: the numeric replies.
  \<^item> this theory: the properties of connections, observers and the server.

  \<^bold>\<open>How the code is represented.\<close> A class is a record, an enumeration a datatype, a member
  function a definition that takes and returns the object. Integers that are narrowed or can
  wrap are words (ports, worker counts, identifiers); sizes bounded by memory are natural
  numbers. Strings are lists of bytes, Windows strings lists of 16-bit words. A hash map is a
  list of its entries; where its iteration order could be seen the order is an argument.
  Errors are values: \<open>status_or\<close> for \<open>absl::StatusOr\<close>, and fault types for what would abort
  or be undefined behaviour (a write past a buffer, a failed \<open>CHECK\<close>, an invalidated
  iterator, an access to a freed object). Objects that are shared live in an explicit heap.
  Coroutines and threads are cut at their suspension points; one turn is one step, and a
  schedule is a sequence of steps. Code outside the repository is a parameter: the channel
  and the socket of a connection, \<open>StrSplit\<close> and \<open>StrJoin\<close>, \<open>toml::parse\<close>, \<open>make_address\<close>, the
  protobuf descriptor, the file system, the kernel and the clock. Where a property needs
  their documented behaviour it says so in a hypothesis, and an instance shows that it can
  hold. All loops are total functions, by structural recursion or by a measure; no fuel is
  needed. The loops that run for ever (\<open>Run\<close>, the coroutines) are turns.

  \<^bold>\<open>What is shown.\<close>

  \<^item> Messages: a well-formed message survives serializing and parsing, the measured size is
    the written size and the exact condition for staying inside the buffer; what the parser
    completes is well formed, however the bytes are cut; the prefix validator is equivalent to
    a grammar; numeric replies survive the wire and stay apart.
  \<^item> Connections: messages sent by one connection reach the observers of another exactly and
    in order; callbacks are sound in every reachable state; a disconnect is reported once; the
    write buffer is overrun exactly by messages that are too long.
  \<^item> Server: identifiers and connection map are exact in every reachable state; nothing is
    accepted while draining; shutting down ends with every connection closed; and the exact
    condition under which handling a terminal signal invalidates its own loop.
  \<^item> Configuration: paths and dotted strings, lookup against the document, one live node per
    path, settings from the document, and the effect of change notifications.
  \<^item> File watchers: no descriptor or handle leaks, however thread and
    callers interleave; no completion after free; closed watches do not fire; watches stay
    registered and recover from a replaced file; no wake-up of either thread is lost; the kqueue
    destructor ends; changes are coalesced; change records are read exactly; the Windows
    watcher shuts down; and both watchers refine a set of watches.
  \<^item> Start-up: a serving program serves what its configuration file says.
  \<^item> Tests: the model passes the repository's unit tests of the parser, the message, the channel
    names and the observer list.
  \<^item> Several properties pin down behaviour the code probably does not intend: tags that do not
    survive the wire, read errors of the Windows watcher, settings that never change, a
    callback that throws and so ends the thread of either watcher, on Windows with reads still
    in progress, and the inotify watcher, with which the program never serves.

  \<^bold>\<open>Not modelled.\<close> Log messages and abseil's parsing of the command line; data races and memory order, since
  what holds a lock or runs on a strand is one step; exceptions of the
  library other than those the code handles; the interfaces without an implementation
  (\<open>Dispatcher\<close>, \<open>ConnectionList\<close>, \<open>CommandHandler\<close>, \<open>ICommand\<close>, \<open>NickRegistry\<close>, \<open>User\<close>,
  \<open>IChannel\<close>), \<open>AsioSsl\<close>, which only includes asio, and
  the tests that exercise the file system (those of the watchers and of the configuration
  file), whose outcome depends on what the kernel delivers and when. \<open>Session::Close\<close> is declared and never defined and is a parameter.
\<close>

section \<open>Examples\<close>

definition sample_api :: "Message list channel_api" where
  "sample_api = \<lparr>try_send = (\<lambda>q m. if length q < 16 then (True, q @ [m]) else (False, q)),
     chan_close = (\<lambda>q. q), chan_cancel = (\<lambda>q. [])\<rparr>"

definition sample_conn :: "(conn_observer, Message list) AsioConnection" where
  "sample_conn = OnConnected (conn_AddObserver (\<lambda>_. True) ServerObserver (AsioConnection_new 1 []))"

definition ping :: Message where
  "ping = empty_message\<lparr>m_command := ''PING'', m_params := [''x'']\<rparr>"

lemma ping_sendable: "sendable sample_env ping" "wire_text ping = ''PING x'' @ [CR, LF]"
  by code_simp+

lemma sample_conn_reachable: "conn_reachable env sample_api 1 [] sample_conn"
proof -
  let ?conn = "conn_AddObserver (\<lambda>_. True) ServerObserver (AsioConnection_new 1 [])"
  have "conn_reachable env sample_api 1 [] ?conn"
    by (rule conn_reachable.step [OF conn_reachable.start conn_step.add_observer])
  then show ?thesis
    unfolding sample_conn_def
    by (rule conn_reachable.step, intro conn_step.connected)
      (simp_all add: conn_AddObserver_def AsioConnection_new_def)
qed

lemma sample_conn_fields:
  "m_connId sample_conn = 1" "m_socket_open sample_conn" "c_log sample_conn = []" "c_sent sample_conn = []"
  "m_observers (c_observable sample_conn) = [ServerObserver]"
  "at_message_start sample_conn" "buffer_intact sample_conn"
  by (simp_all add: at_message_start_def buffer_intact_def sample_conn_def OnConnected_def
      conn_AddObserver_def AsioConnection_new_def observable_defs)

section \<open>Connections\<close>





text \<open>
  C14. In every state a connection can reach, each callback its observers got carries the
  connection's identifier, each message reported is well formed, none reports an error, and
  a disconnect has been reported only if the socket is closed.
\<close>

theorem connection_events_sound:
  assumes "str_split (str_split_max env)" and "conn_reachable env api connId queue conn"
    and "(ob, ev) \<in> set (c_log conn)"
  shows "case ev of
      OnMessage i msg \<Rightarrow> i = connId \<and> wf_message env msg
    | OnError i st \<Rightarrow> False
    | OnDisconnect i \<Rightarrow> i = connId \<and> \<not> m_socket_open conn"
proof -
  have inv: "conn_inv env connId conn" by (rule conn_reachable_inv [OF assms(1,2)])
  then have "event_ok env connId ev" using assms(3) by (auto simp: conn_inv_def)
  moreover have "\<not> m_socket_open conn" if "ev = OnDisconnect i" for i
    using inv assms(3) that
    by (auto simp: conn_inv_def disconnects_def filter_empty_conv is_disconnect_def)
  ultimately show ?thesis by (auto simp: event_ok_def split: conn_event.split)
qed

theorem connection_events_sound_witness:
  "\<exists>conn. conn_reachable sample_env sample_api 1 [] conn
     \<and> (ServerObserver, OnDisconnect 1) \<in> set (c_log conn) \<and> \<not> m_socket_open conn"
proof -
  obtain conn where c: "Close sample_api (\<lambda>_. True) sample_conn = Inr conn"
    "(ServerObserver, OnDisconnect 1) \<in> set (c_log conn)"
    by (simp add: Close_def CloseUnderLock_eq notify_event_eq sample_conn_fields)
  have "conn_reachable sample_env sample_api 1 [] conn"
    using conn_reachable.step [OF sample_conn_reachable conn_step.close [OF c(1)]] .
  with connection_events_sound [OF sample_env_split this c(2)] c(2) show ?thesis by auto
qed

text \<open>
  C15. A connection reports its end once: after its socket is closed, nothing that happens
  to it opens the socket again or adds a disconnect callback, and closing it again changes
  nothing.
\<close>

theorem disconnect_reported_once:
  assumes "Close api alive conn = Inr conn1" and "(conn_step env api)\<^sup>*\<^sup>* conn1 conn2"
  shows "\<not> m_socket_open conn2 \<and> disconnects conn2 = disconnects conn1
    \<and> Close api alive' conn2 = Inr conn2"
proof -
  have "\<not> m_socket_open conn1"
    using assms(1) by (auto simp: Close_def CloseUnderLock_eq notify_event_eq split: if_splits)
  from conn_steps_closed [OF assms(2) this] show ?thesis by simp
qed

theorem disconnect_reported_once_witness:
  "\<exists>conn1. Close sample_api (\<lambda>_. True) sample_conn = Inr conn1
     \<and> disconnects conn1 = [(ServerObserver, OnDisconnect 1)]
     \<and> Close sample_api (\<lambda>_. True) conn1 = Inr conn1"
proof -
  obtain conn1 where c: "Close sample_api (\<lambda>_. True) sample_conn = Inr conn1"
    "disconnects conn1 = [(ServerObserver, OnDisconnect 1)]"
    by (simp add: Close_def CloseUnderLock_eq notify_event_eq sample_conn_fields disconnects_def
        is_disconnect_def)
  with disconnect_reported_once [OF c(1) rtranclp.rtrancl_refl] show ?thesis by blast
qed

text \<open>
  C25. The write loop overruns its buffer of 12288 bytes exactly when the message needs
  more space than that; otherwise exactly the bytes of the message are handed to the
  socket.
\<close>

theorem write_loop_overrun_iff:
  assumes "str_split (str_split_max env)" and "conn_reachable env api connId queue conn"
  shows "(RunWriteLoop_received api alive (Received msg) conn = Inl BufferOverrun
       \<longleftrightarrow> 12288 < ComputeRequiredSpace msg)
    \<and> (\<forall>conn'. RunWriteLoop_received api alive (Received msg) conn = Inr conn' \<longrightarrow>
         c_sent conn' = c_sent conn @ wire_text msg)"
proof -
  have "buffer_intact conn" using conn_reachable_inv [OF assms] by (simp add: conn_inv_def)
  from received_eq [OF this, of api alive msg] show ?thesis by (auto simp: write_buffer_size_def)
qed

definition long_message :: Message where
  "long_message = empty_message\<lparr>m_command := ''TOPIC'', m_params := [replicate 12288 (CHR ''x'')]\<rparr>"

theorem write_loop_overrun_iff_witness:
  "RunWriteLoop_received sample_api (\<lambda>_. True) (Received long_message) sample_conn = Inl BufferOverrun"
proof -
  have "12288 < ComputeRequiredSpace long_message"
    by (simp add: ComputeRequiredSpace_eq long_message_def wire_text_def RequiresTrailingMarker_def
        hd_replicate)
  with write_loop_overrun_iff [OF sample_env_split sample_conn_reachable, of "\<lambda>_. True" long_message]
  show ?thesis by blast
qed

text \<open>
  A response is accepted exactly when the write queue takes it; when it does not the
  answer is \<open>Backpressure\<close>, never \<open>Closed\<close>, even on a closed connection.
\<close>

theorem deliver_never_reports_closed:
  "(fst (DeliverResponse api msg conn) = Sent \<longleftrightarrow> fst (try_send api (m_writeQueue conn) msg))
   \<and> fst (DeliverResponse api msg conn) \<noteq> Closed
   \<and> snd (DeliverResponse api msg conn)
       = conn\<lparr>m_writeQueue := snd (try_send api (m_writeQueue conn) msg)\<rparr>"
  by (simp add: DeliverResponse_def Let_def split: prod.split)

text \<open>
  C36. From the first byte the parser rejects, the rest of that read is ignored: the
  connection is left as if the read had ended before the byte, stays open, and resumes in
  the middle of the rejected line with the next read.
\<close>

theorem rejected_read_truncated:
  assumes "feed env (m_message conn) (m_parser conn) before = (ms, p, msg, True)"
    and "Consume env msg c p = (Invalid, p', msg')"
  shows "RunReadLoop_turn env api alive (ReadSome (before @ c # rest)) conn
    = RunReadLoop_turn env api alive (ReadSome before) conn"
proof -
  have "feed env (m_message conn) (m_parser conn) (before @ c # rest) = (ms, p, msg, False)"
    using assms Consume_Invalid_frame [OF assms(2)] by (simp add: feed_append)
  with assms(1) show ?thesis
    by (simp add: RunReadLoop_turn_def read_bytes_feed conn_after_feed_def)
qed

theorem rejected_read_truncated_witness:
  "RunReadLoop_turn sample_env sample_api (\<lambda>_. True) (ReadSome (''NICK*'' @ ''more'' @ [CR, LF])) sample_conn
    = RunReadLoop_turn sample_env sample_api (\<lambda>_. True) (ReadSome ''NICK'') sample_conn"
proof -
  have start: "m_message sample_conn = empty_message" "m_parser sample_conn = MessageParser_init"
    using sample_conn_fields(6) by (simp_all add: at_message_start_def)
  let ?p = "\<lparr>m_state = parseStateCommandName, m_buffer = ''NICK''\<rparr>"
  have f: "feed sample_env (m_message sample_conn) (m_parser sample_conn) ''NICK''
      = ([], ?p, empty_message, True)"
    unfolding start by code_simp
  have "Consume sample_env empty_message (CHR ''*'') ?p = (Invalid, ?p, empty_message)" by code_simp
  from rejected_read_truncated [OF f this, of sample_api "\<lambda>_. True" "''more'' @ [CR, LF]"]
  show ?thesis by simp
qed

section \<open>Observers\<close>



section \<open>The server\<close>

definition sample_config :: "addr ServerConfig" where
  "sample_config = \<lparr>m_serverConfigNode = 0,
     m_data = \<lparr>NumWorkers = 1, Port = 6667, TlsPort = 0\<rparr>\<rparr>"

text \<open>A server that has accepted one client, and the same server after SIGTERM.\<close>

definition sample_server :: "Message list Server" where
  "sample_server = AcceptConnections_turn [] Accepted
     (case ServeForever (\<lambda>_. True) (Server_new sample_config) of Inr s \<Rightarrow> s)"

definition sample_draining :: "Message list Server" where
  "sample_draining =
     (case HandleSignals_turn sample_api (\<lambda>_. True) (Signal SIGTERM) sample_server of Inr s \<Rightarrow> s)"

lemmas sample_server_defs = sample_server_def sample_config_def ServeForever_def Server_new_def
  AcceptConnections_turn_def GetPort_def GetNumWorkers_def lhm_emplace_def

lemma sample_server_reachable: "server_reachable env sample_api [] sample_config sample_server"
proof -
  obtain s :: "Message list Server" where s: "ServeForever (\<lambda>_. True) (Server_new sample_config) = Inr s"
    by (simp add: ServeForever_def Let_def)
  then have r: "server_reachable env sample_api [] sample_config s" by (rule server_reachable.start)
  have "0 < m_workers s" "s_accept s = LoopWaiting"
    using s by (auto simp: ServeForever_def Server_new_def sample_config_def GetNumWorkers_def Let_def)
  then have "server_step env sample_api [] s (AcceptConnections_turn [] Accepted s)"
    by (rule server_step.accept)
  with r s show ?thesis by (auto simp: sample_server_def intro: server_reachable.step)
qed

lemma sample_draining_turn:
  "HandleSignals_turn sample_api (\<lambda>_. True) (Signal SIGTERM) sample_server = Inr sample_draining"
  by (simp add: sample_draining_def sample_server_defs HandleSignals_turn_def signal_defs Let_def)

lemma sample_draining_reachable: "server_reachable env sample_api [] sample_config sample_draining"
  by (rule server_reachable.step [OF sample_server_reachable server_step.signal [OF _ _ sample_draining_turn]])
    (simp_all add: sample_server_defs Let_def)

lemma sample_draining_fields:
  "m_draining sample_draining" "0 < m_workers sample_draining" "length (s_heap sample_draining) = 1"
  "m_connections sample_draining = [(1, 0)]"
  by (simp_all add: sample_draining_def sample_server_defs HandleSignals_turn_def signal_defs Let_def)



text \<open>
  C23. Once a terminal signal has been handled the server takes no new client, whatever
  accepts still complete: no connection object is created and no entry is added to the map
  in any later state, and the server never stops draining.
\<close>

theorem draining_accepts_nothing:
  assumes "server_reachable env api queue config s" and "m_draining s"
    and "(server_step env api queue)\<^sup>*\<^sup>* s s'"
  shows "m_draining s' \<and> length (s_heap s') = length (s_heap s)
    \<and> set (m_connections s') \<subseteq> set (m_connections s)"
  using draining_steps [OF assms(3) server_reachable_inv [OF assms(1)] assms(2)] by blast

theorem draining_accepts_nothing_witness:
  "server_step sample_env sample_api [] sample_draining (AcceptConnections_turn [] Accepted sample_draining)
   \<and> length (s_heap (AcceptConnections_turn [] Accepted sample_draining)) = 1"
proof -
  have "s_accept sample_draining = LoopWaiting"
    by (simp add: sample_draining_def sample_server_defs HandleSignals_turn_def signal_defs Let_def)
  then have step: "server_step sample_env sample_api [] sample_draining
      (AcceptConnections_turn [] Accepted sample_draining)"
    using sample_draining_fields(2) by (intro server_step.accept)
  with draining_accepts_nothing [OF sample_draining_reachable sample_draining_fields(1)
      r_into_rtranclp [of "server_step sample_env sample_api []", OF step]] sample_draining_fields(3) show ?thesis by simp
qed

text \<open>
  C5. Connection identifiers count the accepted clients from one, and the connection map
  has exactly one entry for every open connection, under its identifier; an entry whose
  connection is closed has its removal waiting on the server's strand.
\<close>

theorem connection_map_exact:
  assumes "server_reachable env api queue config s" and "length (s_heap s) < 2 ^ 64"
  shows "distinct (map fst (m_connections s))
    \<and> (\<forall>a < length (s_heap s). m_connId (s_heap s ! a) = of_nat (a + 1)
         \<and> (m_socket_open (s_heap s ! a) \<longrightarrow> map_of (m_connections s) (of_nat (a + 1)) = Some a))
    \<and> (\<forall>(i, a) \<in> set (m_connections s).
         a < length (s_heap s) \<and> (m_socket_open (s_heap s ! a) \<or> i \<in> set (s_strand s)))"
proof -
  have inv: "server_inv s" and ids: "ids_inv s" and op: "open_inv s"
    by (rule server_reachable_inv [OF assms(1)], rule server_reachable_ids [OF assms(1)],
        rule server_reachable_open [OF assms])
  have "map_of (m_connections s) (of_nat (a + 1)) = Some a"
    if "a < length (s_heap s)" "m_socket_open (s_heap s ! a)" for a
    using open_invD(1) [OF op that] server_invD(1) [OF inv] by (rule map_of_is_SomeI [rotated])
  moreover have "a < length (s_heap s) \<and> (m_socket_open (s_heap s ! a) \<or> i \<in> set (s_strand s))"
    if "(i, a) \<in> set (m_connections s)" for i a
    using server_invD(2) [OF inv that] by (simp add: entry_ok_def)
  ultimately show ?thesis
    using server_invD(1) [OF inv] ids unfolding ids_inv_def by blast
qed

theorem connection_map_exact_witness:
  "length (s_heap sample_server) = 1 \<and> map_of (m_connections sample_server) 1 = Some 0"
proof -
  have "length (s_heap sample_server) = 1" "m_socket_open (s_heap sample_server ! 0)"
    by (simp_all add: sample_server_defs Let_def AsioConnection_new_def)
  with connection_map_exact [OF sample_server_reachable] show ?thesis by force
qed

text \<open>
  C35. Handling a terminal signal goes wrong exactly when some connection in the map is
  open with an idle strand and its \<open>Close\<close> is run at once: the disconnect callback then
  erases the entry the loop over the map stands on.
\<close>

theorem terminal_signal_faults_iff:
  assumes "server_reachable env api queue config s" and "sig \<in> set kTerminalSignals"
  shows "(HandleSignals_turn api run_now (Signal sig) s = Inl IteratorInvalidated) =
      (\<exists>(i, a) \<in> set (m_connections s). run_now a \<and> s_tasks s a = [] \<and> m_socket_open (s_heap s ! a))"
proof -
  have "terminal (Signal sig)" using assms(2) by (simp add: terminal_def)
  from HandleSignals_fault [OF server_reachable_inv [OF assms(1)] this, of run_now api]
  show ?thesis by (auto simp: closes_now_def split: if_splits)
qed

text \<open>The sample server after the two handlers queued for its client have run.\<close>

definition run_head :: "addr \<Rightarrow> Message list Server \<Rightarrow> Message list Server" where
  "run_head a s =
     (case s_tasks s a of
        t # ts \<Rightarrow>
          (case run_task sample_api t (s_heap s ! a) of
             Inr conn' \<Rightarrow> conn_ran False a conn' (s\<lparr>s_tasks := (s_tasks s)(a := ts)\<rparr>)
           | Inl fault \<Rightarrow> s)
      | [] \<Rightarrow> s)"

definition sample_running :: "Message list Server" where
  "sample_running = run_head 0 (run_head 0 sample_server)"

lemma run_head_reachable:
  assumes "server_reachable env sample_api [] sample_config s" and "0 < m_workers s"
    and "a < length (s_heap s)" and "s_tasks s a = t # ts"
  shows "server_reachable env sample_api [] sample_config (run_head a s)"
proof -
  obtain conn' where c: "run_task sample_api t (s_heap s ! a) = Inr conn'" using run_task_total by blast
  from server_reachable.step [OF assms(1) server_step.task [OF assms(2-4) c]] show ?thesis
    by (simp add: run_head_def assms(4) c)
qed

lemma sample_running_reachable: "server_reachable env sample_api [] sample_config sample_running"
  unfolding sample_running_def
  by (rule run_head_reachable [OF run_head_reachable [OF sample_server_reachable]])
    (simp_all add: sample_server_defs Let_def run_head_def run_task_def conn_ran_eq)

lemma sample_running_fields:
  "m_connections sample_running = [(1, 0)]" "s_tasks sample_running 0 = []"
  "m_socket_open (s_heap sample_running ! 0)"
  by (simp_all add: sample_running_def sample_server_defs Let_def run_head_def run_task_def
      conn_ran_eq OnConnected_def conn_AddObserver_def AsioConnection_new_def)

theorem terminal_signal_faults_iff_witness:
  "HandleSignals_turn sample_api (\<lambda>_. True) (Signal SIGINT) sample_running = Inl IteratorInvalidated"
proof -
  have "SIGINT \<in> set kTerminalSignals" by (simp add: signal_defs)
  from terminal_signal_faults_iff [OF sample_running_reachable [of sample_env] this, of "\<lambda>_. True"]
  show ?thesis by (simp add: sample_running_fields)
qed

text \<open>
  With no configured worker the server never serves: it starts no thread, and in
  every reachable state no connection has been accepted and no signal handled.
\<close>

theorem no_workers_no_service:
  assumes "GetNumWorkers config = 0" and "server_reachable env api queue config s"
  shows "m_workers s = 0 \<and> s_heap s = [] \<and> m_connections s = [] \<and> \<not> m_draining s"
  using assms(2)
proof (induction rule: server_reachable.induct)
  case (start listen_ok s)
  then show ?case using assms(1)
    by (auto simp: ServeForever_def Server_new_def Let_def split: if_splits)
next
  case (step s s')
  from step(2) step.IH show ?case by cases auto
qed

theorem no_workers_no_service_witness:
  "\<exists>s :: Message list Server.
     server_reachable sample_env sample_api []
       \<lparr>m_serverConfigNode = 0, m_data = \<lparr>NumWorkers = 0, Port = 6667, TlsPort = 0\<rparr>\<rparr> s
     \<and> m_acceptor_open s \<and> m_workers s = 0"
proof -
  let ?c = "\<lparr>m_serverConfigNode = 0 :: addr, m_data = \<lparr>NumWorkers = 0, Port = 6667, TlsPort = 0\<rparr>\<rparr>"
  obtain s :: "Message list Server" where s: "ServeForever (\<lambda>_. True) (Server_new ?c) = Inr s"
    by (simp add: ServeForever_def Let_def)
  then have r: "server_reachable sample_env sample_api [] ?c s" by (rule server_reachable.start)
  have "GetNumWorkers ?c = 0" by (simp add: GetNumWorkers_def)
  from no_workers_no_service [OF this r] r s show ?thesis
    by (auto simp: ServeForever_def Let_def)
qed

text \<open>
  Whatever its clients send, a running server gets from its connections only callbacks
  with the identifier of the connection, well-formed messages and no errors.
\<close>

theorem server_callbacks_sound:
  assumes "str_split (str_split_max env)" and "server_reachable env api queue config s"
    and "a < length (s_heap s)" and "(ob, ev) \<in> set (c_log (s_heap s ! a))"
  shows "case ev of
      OnMessage i msg \<Rightarrow> i = of_nat (a + 1) \<and> wf_message env msg
    | OnError i st \<Rightarrow> False
    | OnDisconnect i \<Rightarrow> i = of_nat (a + 1)"
proof -
  have "conn_inv env (of_nat (a + 1)) (s_heap s ! a)"
    by (rule conn_reachable_inv [OF assms(1) server_conn_reachable [OF assms(2,3)]])
  then have "event_ok env (of_nat (a + 1)) ev" using assms(4) unfolding conn_inv_def by blast
  then show ?thesis by (simp add: event_ok_def split: conn_event.splits)
qed

theorem server_callbacks_sound_witness:
  "\<exists>s. server_reachable sample_env sample_api [] sample_config s
     \<and> (ServerObserver, OnMessage 1 ping) \<in> set (c_log (s_heap s ! 0)) \<and> wf_message sample_env ping"
proof -
  let ?conn = "s_heap sample_running ! 0"
  have conn: "?conn = sample_conn" "length (s_heap sample_running) = 1" "0 < m_workers sample_running"
    by (simp_all add: sample_running_def sample_server_defs Let_def run_head_def run_task_def
        conn_ran_eq sample_conn_def)
  obtain conn' where c: "RunReadLoop_turn sample_env sample_api (\<lambda>_. True) (ReadSome (wire_text ping)) ?conn
      = Inr conn'" "c_log conn' = [(ServerObserver, OnMessage 1 ping)]"
    using read_chunks_wire_stream [OF sample_env_split _ sample_conn_fields(6),
        of "[ping]" "[wire_text ping]" sample_api "\<lambda>_. True"]
    by (auto simp: ping_sendable(1) wire_stream_def message_events_def sample_conn_fields conn(1)
        split: sum.splits)
  let ?s = "conn_ran False 0 conn' sample_running"
  have "c_read ?conn = ReadWaiting" by (simp add: conn(1) sample_conn_def OnConnected_def)
  then have "server_step sample_env sample_api [] sample_running ?s"
    using conn(2,3) c(1) by (intro server_step.read) auto
  with sample_running_reachable have r: "server_reachable sample_env sample_api [] sample_config ?s"
    by (rule server_reachable.step)
  have log: "0 < length (s_heap ?s)" "(ServerObserver, OnMessage 1 ping) \<in> set (c_log (s_heap ?s ! 0))"
    using conn(2) c(2) by (simp_all add: conn_ran_eq)
  from server_callbacks_sound [OF sample_env_split r log] r log show ?thesis by auto
qed

end
